theory Spec2Isabelle
  imports Main "HOL-Library.Sublist" "HOL-Library.AList"
begin

section \<open>A model of the file system seen by gomvc\<close>

text \<open>
  The program \<^verbatim>\<open>gomvc.go\<close> is a sequence of calls into Go's \<^verbatim>\<open>os\<close> package.
  Its behaviour is fixed by what those calls return, so the model starts with the
  file system they act on.

  \<^item> A path is the list of the names on the way from the file-system root to an
    entry. The \<^verbatim>\<open>rootPath\<close> argument of the program is such a list: the absolute,
    cleaned form of the string given on the command line. There are no symbolic
    links and no \<^verbatim>\<open>.\<close> or \<^verbatim>\<open>..\<close> elements.
  \<^item> The file system is a tree. A regular file carries its content; a directory
    carries the permission bits of the calling process on it (read: list the
    entries, write: add and remove entries, search: resolve a name inside it) and
    its entries as an association list, looked up by first match. The process is
    an ordinary user, so the bits apply. A regular file has no bits of its own in
    the model: the program opens a file only where \<^verbatim>\<open>os.Stat\<close> has found none.
  \<^item> Every \<^verbatim>\<open>os\<close> call takes the tree and returns an optional error number and the
    new tree. Device-level failures (a full disk, a read-only medium, an
    interrupted write) and a second process changing the tree between two calls are
    outside the model; what the model does produce are the path-resolution and
    permission errors \<^verbatim>\<open>ENOENT\<close>, \<^verbatim>\<open>ENOTDIR\<close>, \<^verbatim>\<open>EACCES\<close>, \<^verbatim>\<open>EEXIST\<close>,
    \<^verbatim>\<open>EISDIR\<close> and \<^verbatim>\<open>ENOTEMPTY\<close>.
\<close>

type_synonym path = "string list"

datatype errno = ENOENT | ENOTDIR | EACCES | EEXIST | EISDIR | ENOTEMPTY | EBUSY | EBADF

datatype mode = Mode (readable: bool) (writable: bool) (searchable: bool)

datatype node = File string | Dir mode "(string \<times> node) list"

text \<open>
  What the properties below compare of one entry: its kind, and the content of a file
  or the mode of a directory.
\<close>

datatype info = IsFile string | IsDir mode

fun info_of :: "node \<Rightarrow> info" where
  "info_of (File c) = IsFile c"
| "info_of (Dir m es) = IsDir m"

fun is_dir :: "node \<Rightarrow> bool" where
  "is_dir (File c) = False"
| "is_dir (Dir m es) = True"

text \<open>
  \<open>node_at\<close> is the content of the tree at a path, whatever the permissions: the
  ground truth that the frame and round-trip properties are stated on. \<open>walk\<close> is
  path resolution as a system call performs it: it needs search permission on every
  directory it passes through, and tells a missing name (\<^verbatim>\<open>ENOENT\<close>) from a regular
  file in the way (\<^verbatim>\<open>ENOTDIR\<close>).
\<close>

fun node_at :: "node \<Rightarrow> path \<Rightarrow> node option" where
  "node_at n [] = Some n"
| "node_at (File c) (x # xs) = None"
| "node_at (Dir m es) (x # xs) =
     (case map_of es x of None \<Rightarrow> None | Some n \<Rightarrow> node_at n xs)"

definition info_at :: "node \<Rightarrow> path \<Rightarrow> info option" where
  "info_at fs p = map_option info_of (node_at fs p)"

fun walk :: "node \<Rightarrow> path \<Rightarrow> errno + node" where
  "walk n [] = Inr n"
| "walk (File c) (x # xs) = Inl ENOTDIR"
| "walk (Dir m es) (x # xs) =
     (if \<not> searchable m then Inl EACCES
      else case map_of es x of None \<Rightarrow> Inl ENOENT | Some n \<Rightarrow> walk n xs)"

text \<open>
  \<^verbatim>\<open>os.Stat\<close> (and \<^verbatim>\<open>os.Lstat\<close>, the same without symbolic links) resolve the path;
  \<^verbatim>\<open>os.IsNotExist\<close> is true of the error \<^verbatim>\<open>ENOENT\<close> only, not of \<^verbatim>\<open>nil\<close>, \<^verbatim>\<open>ENOTDIR\<close>
  or \<^verbatim>\<open>EACCES\<close>.
\<close>

definition Stat :: "node \<Rightarrow> path \<Rightarrow> errno + node" where
  "Stat fs p = walk fs p"

definition Lstat :: "node \<Rightarrow> path \<Rightarrow> errno + node" where
  "Lstat fs p = walk fs p"

fun err_of :: "errno + 'a \<Rightarrow> errno option" where
  "err_of (Inl e) = Some e"
| "err_of (Inr v) = None"

definition IsNotExist :: "errno option \<Rightarrow> bool" where
  "IsNotExist err = (err = Some ENOENT)"

text \<open>
  The system calls that change one directory entry (\<^verbatim>\<open>mkdir\<close>, \<^verbatim>\<open>open\<close> with
  \<^verbatim>\<open>O_CREAT\<close>, \<^verbatim>\<open>unlink\<close>, \<^verbatim>\<open>rmdir\<close>) resolve the parent directory of the path and
  then act on the entry of the last name there. \<open>at_entry\<close> is that resolution; the
  operation \<open>f\<close> gets the mode of the parent directory and the present entry and
  returns the error and the new entry. The empty path is the file-system root
  itself, which has no parent; the program never passes it.
\<close>

fun at_entry ::
  "(mode \<Rightarrow> node option \<Rightarrow> errno option \<times> node option) \<Rightarrow> path \<Rightarrow> node \<Rightarrow> errno option \<times> node"
where
  "at_entry f [] n = (Some EBUSY, n)"
| "at_entry f (x # xs) (File c) = (Some ENOTDIR, File c)"
| "at_entry f [x] (Dir m es) =
     (if \<not> searchable m then (Some EACCES, Dir m es)
      else case f m (map_of es x) of
             (e, None) \<Rightarrow> (e, Dir m (AList.delete x es))
           | (e, Some n') \<Rightarrow> (e, Dir m (AList.update x n' es)))"
| "at_entry f (x # y # ys) (Dir m es) =
     (if \<not> searchable m then (Some EACCES, Dir m es)
      else case map_of es x of
             None \<Rightarrow> (Some ENOENT, Dir m es)
           | Some n \<Rightarrow> (case at_entry f (y # ys) n of (e, n') \<Rightarrow> (e, Dir m (AList.update x n' es))))"

text \<open>
  \<^verbatim>\<open>os.ModePerm\<close> is \<^verbatim>\<open>0777\<close>; with a umask that leaves the owner's bits alone the
  new directory is readable, writable and searchable by the process.
\<close>

definition ModePerm :: mode where
  "ModePerm = Mode True True True"

definition mkdir_op :: "mode \<Rightarrow> node option \<Rightarrow> errno option \<times> node option" where
  "mkdir_op m ent =
     (case ent of
        Some n \<Rightarrow> (Some EEXIST, Some n)
      | None \<Rightarrow> if writable m then (None, Some (Dir ModePerm [])) else (Some EACCES, None))"

definition Mkdir :: "path \<Rightarrow> node \<Rightarrow> errno option \<times> node" where
  "Mkdir p fs = at_entry mkdir_op p fs"

text \<open>
  \<^verbatim>\<open>os.MkdirAll\<close>: if the path resolves, it must be a directory; otherwise make the
  parent first (unless the parent is the file-system root), then the directory
  itself, and accept a failed \<^verbatim>\<open>mkdir\<close> when the directory is there all the same.
\<close>

function MkdirAll :: "path \<Rightarrow> node \<Rightarrow> errno option \<times> node" where
  "MkdirAll p fs =
     (case Stat fs p of
        Inr n \<Rightarrow> if is_dir n then (None, fs) else (Some ENOTDIR, fs)
      | Inl _ \<Rightarrow>
          (case (if length p \<le> 1 then (None, fs) else MkdirAll (butlast p) fs) of
             (Some e, fs1) \<Rightarrow> (Some e, fs1)
           | (None, fs1) \<Rightarrow>
               (case Mkdir p fs1 of
                  (None, fs2) \<Rightarrow> (None, fs2)
                | (Some e, fs2) \<Rightarrow>
                    (case Lstat fs2 p of
                       Inr n \<Rightarrow> if is_dir n then (None, fs2) else (Some e, fs2)
                     | Inl _ \<Rightarrow> (Some e, fs2)))))"
  by pat_completeness auto
termination
  by (relation "measure (\<lambda>(p, fs). length p)") auto

declare MkdirAll.simps [simp del]

text \<open>
  \<^verbatim>\<open>os.Create\<close> opens with \<^verbatim>\<open>O_RDWR|O_CREATE|O_TRUNC\<close>: an existing regular file is
  emptied, a directory is refused, a missing entry is made if the parent directory is
  writable. \<^verbatim>\<open>WriteString\<close> appends to the file just opened.
\<close>

definition create_op :: "mode \<Rightarrow> node option \<Rightarrow> errno option \<times> node option" where
  "create_op m ent =
     (case ent of
        Some (File c) \<Rightarrow> (None, Some (File []))
      | Some (Dir dm des) \<Rightarrow> (Some EISDIR, Some (Dir dm des))
      | None \<Rightarrow> if writable m then (None, Some (File [])) else (Some EACCES, None))"

definition Create :: "path \<Rightarrow> node \<Rightarrow> errno option \<times> node" where
  "Create p fs = at_entry create_op p fs"

definition write_op :: "string \<Rightarrow> mode \<Rightarrow> node option \<Rightarrow> errno option \<times> node option" where
  "write_op content m ent =
     (case ent of
        Some (File c) \<Rightarrow> (None, Some (File (c @ content)))
      | Some (Dir dm des) \<Rightarrow> (Some EBADF, Some (Dir dm des))
      | None \<Rightarrow> (Some EBADF, None))"

definition WriteString :: "path \<Rightarrow> string \<Rightarrow> node \<Rightarrow> errno option \<times> node" where
  "WriteString p content fs = at_entry (write_op content) p fs"

text \<open>
  \<^verbatim>\<open>os.Remove\<close> tries \<^verbatim>\<open>unlink\<close>, then \<^verbatim>\<open>rmdir\<close>: a regular file or an empty
  directory goes if the parent directory is writable.
\<close>

definition remove_op :: "mode \<Rightarrow> node option \<Rightarrow> errno option \<times> node option" where
  "remove_op m ent =
     (case ent of
        None \<Rightarrow> (Some ENOENT, None)
      | Some (File c) \<Rightarrow> if writable m then (None, None) else (Some EACCES, Some (File c))
      | Some (Dir dm des) \<Rightarrow>
          if \<not> writable m then (Some EACCES, Some (Dir dm des))
          else if des \<noteq> [] then (Some ENOTEMPTY, Some (Dir dm des))
          else (None, None))"

definition Remove :: "path \<Rightarrow> node \<Rightarrow> errno option \<times> node" where
  "Remove p fs = at_entry remove_op p fs"

text \<open>
  \<^verbatim>\<open>os.RemoveAll\<close> (the \<^verbatim>\<open>unlinkat\<close> implementation). \<open>removeAllFrom pm n\<close> removes
  the entry \<open>n\<close> from a directory of mode \<open>pm\<close>: a regular file needs search and
  write permission on that directory; a directory is opened (read permission), its
  entries are removed one by one, going on after a failure, and then it is removed
  itself if it has become empty. The result is the first error and what is left of
  the entry (\<open>None\<close> when it is gone).
\<close>

function removeAllFrom :: "mode \<Rightarrow> node \<Rightarrow> errno option \<times> node option"
  and removeEntries :: "mode \<Rightarrow> (string \<times> node) list \<Rightarrow> errno option \<times> (string \<times> node) list"
where
  "removeAllFrom pm (File c) =
     (if searchable pm \<and> writable pm then (None, None) else (Some EACCES, Some (File c)))"
| "removeAllFrom pm (Dir m es) =
     (if \<not> searchable pm then (Some EACCES, Some (Dir m es))
      else case (if readable m then removeEntries m es else (Some EACCES, es)) of
             (recurseErr, es') \<Rightarrow>
               if writable pm \<and> es' = [] then (None, None)
               else (case recurseErr of
                       Some e \<Rightarrow> (Some e, Some (Dir m es'))
                     | None \<Rightarrow> (Some (if writable pm then ENOTEMPTY else EACCES), Some (Dir m es'))))"
| "removeEntries m [] = (None, [])"
| "removeEntries m ((name, n) # es) =
     (case removeAllFrom m n of
        (err, left) \<Rightarrow>
          (case removeEntries m es of
             (recurseErr, es') \<Rightarrow>
               (case err of Some e \<Rightarrow> Some e | None \<Rightarrow> recurseErr,
                case left of None \<Rightarrow> es' | Some n' \<Rightarrow> (name, n') # es')))"
  by pat_completeness auto
termination
  by (relation "measure (\<lambda>a. case a of
          Inl (pm, n) \<Rightarrow> size n
        | Inr (m, es) \<Rightarrow> size_list (size_prod (\<lambda>_. 0) size) es)") auto

definition removeAll_op :: "mode \<Rightarrow> node option \<Rightarrow> errno option \<times> node option" where
  "removeAll_op m ent = (case ent of None \<Rightarrow> (None, None) | Some n \<Rightarrow> removeAllFrom m n)"

text \<open>\<^verbatim>\<open>os.Open\<close> of the parent directory, as \<^verbatim>\<open>RemoveAll\<close> does it: only the error matters.\<close>

definition Open :: "node \<Rightarrow> path \<Rightarrow> errno option" where
  "Open fs p =
     (case walk fs p of
        Inl e \<Rightarrow> Some e
      | Inr (File c) \<Rightarrow> None
      | Inr (Dir m es) \<Rightarrow> if readable m then None else Some EACCES)"

definition RemoveAll :: "path \<Rightarrow> node \<Rightarrow> errno option \<times> node" where
  "RemoveAll p fs =
     (case Remove p fs of
        (None, fs') \<Rightarrow> (None, fs')
      | (Some e, fs') \<Rightarrow>
          if IsNotExist (Some e) then (None, fs')
          else (case Open fs' (butlast p) of
                  Some e' \<Rightarrow> if IsNotExist (Some e') then (None, fs') else (Some e', fs')
                | None \<Rightarrow> at_entry removeAll_op p fs'))"

section \<open>Strings: reading the module name, joining paths, rendering templates\<close>

definition TAB :: char where
  "TAB = CHR 0x09"

definition NL :: char where
  "NL = CHR 0x0A"

definition BACKSLASH :: char where
  "BACKSLASH = CHR 0x5C"

definition unlines :: "string list \<Rightarrow> string" where
  "unlines ls = concat (map (\<lambda>l. l @ [NL]) ls)"

text \<open>
  \<^verbatim>\<open>reader.ReadString('\n')\<close> on the bytes left on standard input: the line up to and
  including the first newline, or the error \<^verbatim>\<open>io.EOF\<close> when there is none.
\<close>

datatype run_error = ExitError nat | StartError errno

datatype error =
    EOF
  | ModuleInitFailed run_error
  | PathError errno
  | GoModDeleteFailed errno

definition ReadString :: "string \<Rightarrow> error + string" where
  "ReadString inp =
     (if NL \<in> set inp then Inr (takeWhile (\<lambda>c. c \<noteq> NL) inp @ [NL]) else Inl EOF)"

text \<open>
  \<^verbatim>\<open>strings.TrimSpace\<close> removes the leading and the trailing white space, as Unicode
  defines it. On the bytes of a Go string these are the six ASCII characters and the
  UTF-8 encodings of U+0085, U+00A0, U+1680, U+2000 to U+200A, U+2028, U+2029,
  U+202F, U+205F and U+3000.
\<close>

definition spaceRunes :: "string list" where
  "spaceRunes =
     [ [CHR 0x09], [CHR 0x0A], [CHR 0x0B], [CHR 0x0C], [CHR 0x0D], [CHR 0x20],
      [CHR 0xC2, CHR 0x85], [CHR 0xC2, CHR 0xA0], [CHR 0xE1, CHR 0x9A, CHR 0x80],
      [CHR 0xE2, CHR 0x80, CHR 0x80], [CHR 0xE2, CHR 0x80, CHR 0x81],
      [CHR 0xE2, CHR 0x80, CHR 0x82], [CHR 0xE2, CHR 0x80, CHR 0x83],
      [CHR 0xE2, CHR 0x80, CHR 0x84], [CHR 0xE2, CHR 0x80, CHR 0x85],
      [CHR 0xE2, CHR 0x80, CHR 0x86], [CHR 0xE2, CHR 0x80, CHR 0x87],
      [CHR 0xE2, CHR 0x80, CHR 0x88], [CHR 0xE2, CHR 0x80, CHR 0x89],
      [CHR 0xE2, CHR 0x80, CHR 0x8A], [CHR 0xE2, CHR 0x80, CHR 0xA8],
      [CHR 0xE2, CHR 0x80, CHR 0xA9], [CHR 0xE2, CHR 0x80, CHR 0xAF],
      [CHR 0xE2, CHR 0x81, CHR 0x9F], [CHR 0xE3, CHR 0x80, CHR 0x80]]"

function stripLeading :: "string list \<Rightarrow> string \<Rightarrow> string" where
  "stripLeading ws s =
     (case find (\<lambda>w. w \<noteq> [] \<and> prefix w s) ws of
        None \<Rightarrow> s
      | Some w \<Rightarrow> stripLeading ws (drop (length w) s))"
  by pat_completeness auto
termination
  by (relation "measure (\<lambda>(ws, s). length s)") (auto simp: find_Some_iff prefix_def)

declare stripLeading.simps [simp del]

definition TrimSpace :: "string \<Rightarrow> string" where
  "TrimSpace s = rev (stripLeading (map rev spaceRunes) (rev (stripLeading spaceRunes s)))"

text \<open>
  \<^verbatim>\<open>filepath.Join\<close> of the root path with relative elements: each element is split
  at the separator and its names are appended.
\<close>

fun split_elem :: "string \<Rightarrow> string \<Rightarrow> string list" where
  "split_elem acc [] = (if acc = [] then [] else [acc])"
| "split_elem acc (c # cs) =
     (if c = CHR ''/'' then (if acc = [] then [] else [acc]) @ split_elem [] cs
      else split_elem (acc @ [c]) cs)"

definition Join :: "path \<Rightarrow> string list \<Rightarrow> path" where
  "Join rootPath elems = rootPath @ concat (map (split_elem []) elems)"

text \<open>
  \<^verbatim>\<open>fmt.Sprintf\<close> with string arguments, for the verb \<^verbatim>\<open>%s\<close> (and \<^verbatim>\<open>%%\<close>): each
  \<^verbatim>\<open>%s\<close> is replaced by the next argument. The two format strings of the program
  use no other verb; a \<^verbatim>\<open>%\<close> before any other character is copied as it is.
\<close>

fun Sprintf :: "string \<Rightarrow> string list \<Rightarrow> string" where
  "Sprintf [] args =
     (if args = [] then []
      else ''%!(EXTRA '' @ concat (map (\<lambda>a. ''string='' @ a @ '', '') (butlast args))
             @ ''string='' @ last args @ '')'')"
| "Sprintf [c] args = c # Sprintf [] args"
| "Sprintf (c # d # cs) args =
     (if c = CHR ''%'' \<and> d = CHR ''s'' then
        (case args of
           [] \<Rightarrow> ''%!s(MISSING)'' @ Sprintf cs []
         | a # as \<Rightarrow> a @ Sprintf cs as)
      else if c = CHR ''%'' \<and> d = CHR ''%'' then CHR ''%'' # Sprintf cs args
      else c # Sprintf (d # cs) args)"


section \<open>The templates\<close>

definition mainGoFormat :: string where
  \<open>mainGoFormat = unlines
    [''package main'',
     '''',
     ''import ('',
     [TAB] @ ''"fmt"'',
     [TAB] @ ''"github.com/gin-gonic/gin"'',
     [TAB] @ ''"%s/router"'',
     '')'',
     '''',
     ''func main() {'',
     [TAB] @ ''fmt.Println("Starting the Gin server...")'',
     [TAB] @ ''r := gin.Default()'',
     [TAB] @ ''router.InitializeRoutes(r)'',
     [TAB] @ ''r.Run(":8080")'',
     ''}'']\<close>

definition controllerContent :: string where
  \<open>controllerContent = unlines
    [''package controller'',
     '''',
     ''import ('',
     [TAB] @ ''"net/http"'',
     [TAB] @ ''"github.com/gin-gonic/gin"'',
     '')'',
     '''',
     ''// HomeController handles requests for the home route'',
     ''func HomeController(c *gin.Context) {'',
     [TAB] @ ''c.JSON(http.StatusOK, gin.H{"message": "Hello from HomeController!"})'',
     ''}'']\<close>

definition modelContent :: string where
  \<open>modelContent = unlines
    [''package models'',
     '''',
     ''// User represents a sample user model'',
     ''type User struct {'',
     [TAB] @ ''ID    int    `json:"id"`'',
     [TAB] @ ''Name  string `json:"name"`'',
     [TAB] @ ''Email string `json:"email"`'',
     ''}'']\<close>

definition pkgContent :: string where
  \<open>pkgContent = unlines
    [''package pkg'',
     '''',
     ''import "fmt"'',
     '''',
     ''// PrintMessage prints a message to the console'',
     ''func PrintMessage(msg string) {'',
     [TAB] @ ''fmt.Println(msg)'',
     ''}'']\<close>

definition routerFormat :: string where
  \<open>routerFormat = unlines
    [''package router'',
     '''',
     ''import ('',
     [TAB] @ ''"github.com/gin-gonic/gin"'',
     [TAB] @ ''"%s/controller"'',
     [TAB] @ ''"%s/middleware"'',
     '')'',
     '''',
     ''// InitializeRoutes sets up the application's routes'',
     ''func InitializeRoutes(r *gin.Engine) {'',
     [TAB] @ ''r.Use(middleware.RequestLogger())'',
     '''',
     [TAB] @ ''r.GET("/", controller.HomeController)'',
     ''}'']\<close>

definition middlewareContent :: string where
  \<open>middlewareContent = unlines
    [''package middleware'',
     '''',
     ''import ('',
     [TAB] @ ''"fmt"'',
     [TAB] @ ''"time"'',
     '''',
     [TAB] @ ''"github.com/gin-gonic/gin"'',
     '')'',
     '''',
     ''// RequestLogger logs each request with method, path, and duration'',
     ''func RequestLogger() gin.HandlerFunc {'',
     [TAB] @ ''return func(c *gin.Context) {'',
     [TAB, TAB] @ ''startTime := time.Now()'',
     [TAB, TAB] @ ''c.Next()'',
     [TAB, TAB] @ ''duration := time.Since(startTime)'',
     [TAB, TAB] @ ''fmt.Printf("[%s] %s %s %v'' @ [BACKSLASH] @ ''n", time.Now().Format(time.RFC3339), c.Request.Method, c.Request.URL.Path, duration)'',
     [TAB] @ ''}'',
     ''}'']\<close>

definition mainGoContent :: "string \<Rightarrow> string" where
  "mainGoContent projectName = Sprintf mainGoFormat [projectName]"

definition routerContent :: "string \<Rightarrow> string" where
  "routerContent projectName = Sprintf routerFormat [projectName, projectName]"

text \<open>
  A test on a text, used to state that a file holds no reference into the module:
  some double quote is followed, before the end of its line, by a slash. A quoted
  import path that starts with a module identifier and a slash is such a place.
\<close>

fun slash_in_line :: "string \<Rightarrow> bool" where
  "slash_in_line [] = False"
| "slash_in_line (c # cs) =
     (if c = CHR ''/'' then True else if c = NL then False else slash_in_line cs)"

fun quoted_ref :: "string \<Rightarrow> bool" where
  "quoted_ref [] = False"
| "quoted_ref (c # cs) = ((c = CHR 0x22 \<and> slash_in_line cs) \<or> quoted_ref cs)"

section \<open>The program\<close>

text \<open>
  \<^verbatim>\<open>if err := step; err != nil { return err }\<close> followed by the rest of the function.
\<close>

definition thenDo ::
  "error option \<times> node \<Rightarrow> (node \<Rightarrow> error option \<times> node) \<Rightarrow> error option \<times> node" where
  "thenDo r rest = (case r of (Some err, fs) \<Rightarrow> (Some err, fs) | (None, fs) \<Rightarrow> rest fs)"

definition createDir :: "path \<Rightarrow> node \<Rightarrow> error option \<times> node" where
  "createDir path fs =
     (if IsNotExist (err_of (Stat fs path)) then
        (case MkdirAll path fs of (err, fs') \<Rightarrow> (map_option PathError err, fs'))
      else (None, fs))"

definition createFile :: "path \<Rightarrow> string \<Rightarrow> node \<Rightarrow> error option \<times> node" where
  "createFile path content fs =
     (if IsNotExist (err_of (Stat fs path)) then
        (case Create path fs of
           (Some err, fs') \<Rightarrow> (Some (PathError err), fs')
         | (None, fs') \<Rightarrow>
             (case WriteString path content fs' of (err, fs'') \<Rightarrow> (map_option PathError err, fs'')))
      else (None, fs))"

definition dirs :: "path \<Rightarrow> path list" where
  "dirs rootPath =
     [Join rootPath [''cmd/api''],
      Join rootPath [''controller''],
      Join rootPath [''models''],
      Join rootPath [''pkg''],
      Join rootPath [''config''],
      Join rootPath [''views''],
      Join rootPath [''router''],
      Join rootPath [''middleware'']]"

text \<open>The loop \<^verbatim>\<open>for _, dir := range dirs\<close> of \<^verbatim>\<open>setupMVC\<close>.\<close>

fun createDirs :: "path list \<Rightarrow> node \<Rightarrow> error option \<times> node" where
  "createDirs [] fs = (None, fs)"
| "createDirs (dir # ds) fs = thenDo (createDir dir fs) (createDirs ds)"

text \<open>
  The module initialiser \<^verbatim>\<open>go mod init\<close> is an external program. It is a parameter
  of the model: run in the root path with the project name, it returns whether the
  command failed and the file system it left behind.
\<close>

type_synonym initializer = "path \<Rightarrow> string \<Rightarrow> node \<Rightarrow> run_error option \<times> node"

text \<open>
  \<^verbatim>\<open>setupMVC\<close>, with the bytes on standard input and the file system made explicit.
  The prompt and the progress messages on standard output are left out.
\<close>

definition setupMVC :: "initializer \<Rightarrow> string \<Rightarrow> path \<Rightarrow> node \<Rightarrow> error option \<times> node" where
  "setupMVC goModInit stdin rootPath fs =
     (case ReadString stdin of
        Inl err \<Rightarrow> (Some err, fs)
      | Inr line \<Rightarrow>
          (let projectName = TrimSpace line in
           case goModInit rootPath projectName fs of
             (Some err, fs0) \<Rightarrow> (Some (ModuleInitFailed err), fs0)
           | (None, fs0) \<Rightarrow>
               thenDo (createDirs (dirs rootPath) fs0) (\<lambda>fs1.
               thenDo (createFile (Join rootPath [''cmd/api'', ''main.go''])
                         (mainGoContent projectName) fs1) (\<lambda>fs2.
               thenDo (createFile (Join rootPath [''controller'', ''home_controller.go''])
                         controllerContent fs2) (\<lambda>fs3.
               thenDo (createFile (Join rootPath [''models'', ''user.go''])
                         modelContent fs3) (\<lambda>fs4.
               thenDo (createFile (Join rootPath [''pkg'', ''utility.go''])
                         pkgContent fs4) (\<lambda>fs5.
               thenDo (createFile (Join rootPath [''router'', ''router.go''])
                         (routerContent projectName) fs5) (\<lambda>fs6.
               thenDo (createFile (Join rootPath [''middleware'', ''request_logger.go''])
                         middlewareContent fs6) (\<lambda>fs7.
               (None, fs7))))))))))"

text \<open>\<^verbatim>\<open>deleteMVC\<close>: the loop over the eight names, then the file \<^verbatim>\<open>go.mod\<close>.\<close>

definition deleteNames :: "string list" where
  "deleteNames =
     [''cmd'', ''controller'', ''models'', ''pkg'', ''config'', ''views'', ''router'',
      ''middleware'']"

fun removeDirs :: "path \<Rightarrow> string list \<Rightarrow> node \<Rightarrow> error option \<times> node" where
  "removeDirs rootPath [] fs = (None, fs)"
| "removeDirs rootPath (dir # ds) fs =
     (case RemoveAll (Join rootPath [dir]) fs of
        (Some err, fs') \<Rightarrow> (Some (PathError err), fs')
      | (None, fs') \<Rightarrow> removeDirs rootPath ds fs')"

definition deleteMVC :: "path \<Rightarrow> node \<Rightarrow> error option \<times> node" where
  "deleteMVC rootPath fs =
     thenDo (removeDirs rootPath deleteNames fs) (\<lambda>fs1.
       let goModPath = Join rootPath [''go.mod''] in
       if err_of (Stat fs1 goModPath) = None then
         (case Remove goModPath fs1 of
            (Some err, fs2) \<Rightarrow> (Some (GoModDeleteFailed err), fs2)
          | (None, fs2) \<Rightarrow> (None, fs2))
       else (None, fs1))"

text \<open>
  The six \<^verbatim>\<open>createFile\<close> calls of \<^verbatim>\<open>setupMVC\<close> as data: the path and the content of
  each call, in the order of the source, and the calls as a loop that stops at the
  first error. \<open>setupMVC\<close> above is written call by call as the source is; the
  lemma \<open>setupMVC_steps\<close> below shows that it runs exactly this loop.
\<close>

definition files :: "path \<Rightarrow> string \<Rightarrow> (path \<times> string) list" where
  "files rootPath projectName =
     [(Join rootPath [''cmd/api'', ''main.go''], mainGoContent projectName),
      (Join rootPath [''controller'', ''home_controller.go''], controllerContent),
      (Join rootPath [''models'', ''user.go''], modelContent),
      (Join rootPath [''pkg'', ''utility.go''], pkgContent),
      (Join rootPath [''router'', ''router.go''], routerContent projectName),
      (Join rootPath [''middleware'', ''request_logger.go''], middlewareContent)]"

fun createFiles :: "(path \<times> string) list \<Rightarrow> node \<Rightarrow> error option \<times> node" where
  "createFiles [] fs = (None, fs)"
| "createFiles ((path, content) # rest) fs = thenDo (createFile path content fs) (createFiles rest)"

section \<open>Example inputs\<close>

text \<open>
  A stand-in for \<^verbatim>\<open>go mod init\<close>, used in the examples: the command starts only in
  an existing directory, refuses to run when the manifest is already there, and
  otherwise writes the manifest \<^verbatim>\<open>go.mod\<close> into the root path. \<open>failInit\<close> is the
  command exiting with status 1, \<open>okInit\<close> a stub that succeeds and changes nothing.
\<close>

definition stubInit :: initializer where
  "stubInit rootPath projectName fs =
     (case walk fs rootPath of
        Inl e \<Rightarrow> (Some (StartError e), fs)
      | Inr (File c) \<Rightarrow> (Some (StartError ENOTDIR), fs)
      | Inr (Dir m es) \<Rightarrow>
          if err_of (Stat fs (Join rootPath [''go.mod''])) \<noteq> Some ENOENT then
            (Some (ExitError 1), fs)
          else
            (case Create (Join rootPath [''go.mod'']) fs of
               (Some e, fs') \<Rightarrow> (Some (ExitError 1), fs')
             | (None, fs') \<Rightarrow>
                 (case WriteString (Join rootPath [''go.mod''])
                         (''module '' @ projectName @ [NL]) fs' of
                    (Some e, fs'') \<Rightarrow> (Some (ExitError 1), fs'')
                  | (None, fs'') \<Rightarrow> (None, fs''))))"

definition failInit :: initializer where
  "failInit rootPath projectName fs = (Some (ExitError 1), fs)"

definition okInit :: initializer where
  "okInit rootPath projectName fs = (None, fs)"

text \<open>The line typed at the prompt, and the module identifier it yields.\<close>

definition exampleInput :: string where
  "exampleInput = ''example.com/u/p1'' @ [NL]"

definition exampleModule :: string where
  "exampleModule = ''example.com/u/p1''"

text \<open>
  A project directory \<^verbatim>\<open>/proj\<close> holding one file of the user; the same with a
  directory \<^verbatim>\<open>cmd\<close> of the user inside; the same with a directory \<^verbatim>\<open>cmd\<close> on which
  the process has no permission at all (mode \<^verbatim>\<open>000\<close>); an empty project directory
  that the process may read and search but not write; and a file system in which
  \<^verbatim>\<open>/home/proj\<close> does not exist.
\<close>

definition exampleFS :: node where
  "exampleFS = Dir ModePerm [(''proj'', Dir ModePerm [(''notes.txt'', File ''hello'')])]"

definition busyFS :: node where
  "busyFS =
     Dir ModePerm
       [(''proj'', Dir ModePerm [(''cmd'', Dir ModePerm [(''keep.txt'', File ''mine'')])])]"

definition lockedFS :: node where
  "lockedFS =
     Dir ModePerm [(''proj'', Dir ModePerm [(''cmd'', Dir (Mode False False False) [])])]"

definition readonlyFS :: node where
  "readonlyFS = Dir ModePerm [(''proj'', Dir (Mode True False True) [])]"


text \<open>
  The example project after the stand-in initialiser has run, and after the whole of
  \<^verbatim>\<open>gomvc -create /proj\<close> with the example input.
\<close>

definition initializedFS :: node where
  "initializedFS =
     Dir ModePerm
       [(''proj'', Dir ModePerm
          [(''notes.txt'', File ''hello''),
           (''go.mod'', File (''module '' @ exampleModule @ [NL]))])]"

definition provisionedFS :: node where
  "provisionedFS =
     Dir ModePerm
       [(''proj'', Dir ModePerm
          [(''notes.txt'', File ''hello''),
           (''go.mod'', File (''module '' @ exampleModule @ [NL])),
           (''cmd'', Dir ModePerm
              [(''api'', Dir ModePerm [(''main.go'', File (mainGoContent exampleModule))])]),
           (''controller'', Dir ModePerm [(''home_controller.go'', File controllerContent)]),
           (''models'', Dir ModePerm [(''user.go'', File modelContent)]),
           (''pkg'', Dir ModePerm [(''utility.go'', File pkgContent)]),
           (''config'', Dir ModePerm []),
           (''views'', Dir ModePerm []),
           (''router'', Dir ModePerm [(''router.go'', File (routerContent exampleModule))]),
           (''middleware'', Dir ModePerm [(''request_logger.go'', File middlewareContent)])])]"



section \<open>Path resolution and directory entries\<close>

text \<open>
  Association lists: deleting a name that is not there and storing the value that is
  already there change nothing, so a failed call returns the very same tree.
\<close>

lemma delete_absent: "map_of es x = None \<Longrightarrow> AList.delete x es = es"
  by (induction es) (auto split: if_splits)

lemma update_same: "map_of es x = Some n \<Longrightarrow> AList.update x n es = es"
  by (induction es) (auto split: if_splits)

lemma alist_map_of_update: "map_of (AList.update x n es) y = (if y = x then Some n else map_of es y)"
  by (simp add: update_conv')

lemma alist_map_of_delete: "map_of (AList.delete x es) y = (if y = x then None else map_of es y)"
  by (simp add: delete_conv')

text \<open>Resolution of a path in two parts, and resolution against the ground truth.\<close>

lemma node_at_append:
  "node_at fs (p @ q) = (case node_at fs p of None \<Rightarrow> None | Some n \<Rightarrow> node_at n q)"
  by (induction fs p rule: node_at.induct) (auto split: option.splits)

lemma walk_append:
  "walk fs (p @ q) = (case walk fs p of Inl e \<Rightarrow> Inl e | Inr n \<Rightarrow> walk n q)"
  by (induction fs p rule: walk.induct) (auto split: option.splits)

lemma walk_Inr_node_at: "walk fs p = Inr n \<Longrightarrow> node_at fs p = Some n"
  by (induction fs p rule: walk.induct) (auto split: option.splits if_splits)

lemma walk_ENOENT_node_at: "walk fs p = Inl ENOENT \<Longrightarrow> node_at fs p = None"
  by (induction fs p rule: walk.induct) (auto split: option.splits if_splits)

lemma node_at_Some_walk:
  "node_at fs p = Some n \<Longrightarrow> walk fs p = Inr n \<or> walk fs p = Inl EACCES"
  by (induction fs p rule: walk.induct) (auto split: option.splits if_splits)

lemma node_at_None_append: "node_at fs p = None \<Longrightarrow> node_at fs (p @ q) = None"
  by (simp add: node_at_append)

text \<open>
  The frame of an entry operation at \<open>p\<close>: an entry that is not \<open>p\<close> and not below \<open>p\<close>
  keeps its kind, mode and content, whatever the operation and whether it succeeds.
  For a path that is neither above nor below \<open>p\<close> path resolution gives the same
  result, error or node, before and after.
\<close>
lemma at_entry_info_frame:
  "\<not> prefix p q \<Longrightarrow> info_at (snd (at_entry f p fs)) q = info_at fs q"
proof (induction f p fs arbitrary: q rule: at_entry.induct)
  case (1 f n)
  then show ?case by simp
next
  case (2 f x xs c)
  then show ?case by simp
next
  case (3 f x m es)
  then show ?case
    by (cases q) (auto simp: info_at_def alist_map_of_update alist_map_of_delete split: prod.splits option.splits)
next
  case (4 f x y ys m es)
  show ?case
  proof (cases q)
    case Nil
    then show ?thesis by (auto simp: info_at_def split: prod.splits option.splits)
  next
    case (Cons a q')
    show ?thesis
    proof (cases "searchable m")
      case False
      then show ?thesis by simp
    next
      case True
      show ?thesis
      proof (cases "map_of es x")
        case None
        then show ?thesis using True by simp
      next
        case (Some n)
        show ?thesis
        proof (cases "a = x")
          case ax: True
          with "4.prems" Cons have "\<not> prefix (y # ys) q'" by simp
          from "4.IH"[OF _ Some this] True
          have "info_at (snd (at_entry f (y # ys) n)) q' = info_at n q'" by simp
          then show ?thesis using True Some Cons ax
            by (auto simp: info_at_def alist_map_of_update split: prod.splits)
        next
          case False
          then show ?thesis using True Some Cons
            by (auto simp: info_at_def alist_map_of_update split: prod.splits)
        qed
      qed
    qed
  qed
qed


lemma at_entry_walk_frame:
  "\<not> prefix p q \<Longrightarrow> \<not> prefix q p \<Longrightarrow> walk (snd (at_entry f p fs)) q = walk fs q"
proof (induction f p fs arbitrary: q rule: at_entry.induct)
  case (1 f n)
  then show ?case by simp
next
  case (2 f x xs c)
  then show ?case by simp
next
  case (3 f x m es)
  then show ?case
    by (cases q) (auto simp: alist_map_of_update alist_map_of_delete split: prod.splits option.splits)
next
  case (4 f x y ys m es)
  show ?case
  proof (cases q)
    case Nil
    then show ?thesis using "4.prems" by simp
  next
    case (Cons a q')
    show ?thesis
    proof (cases "searchable m")
      case False
      then show ?thesis by simp
    next
      case True
      show ?thesis
      proof (cases "map_of es x")
        case None
        then show ?thesis using True by simp
      next
        case (Some n)
        show ?thesis
        proof (cases "a = x")
          case ax: True
          with "4.prems" Cons have "\<not> prefix (y # ys) q'" "\<not> prefix q' (y # ys)" by simp_all
          from "4.IH"[OF _ Some this] True
          have "walk (snd (at_entry f (y # ys) n)) q' = walk n q'" by simp
          then show ?thesis using True Some Cons ax
            by (auto simp: alist_map_of_update split: prod.splits)
        next
          case False
          then show ?thesis using True Some Cons
            by (auto simp: alist_map_of_update split: prod.splits)
        qed
      qed
    qed
  qed
qed

text \<open>
  What \<open>at_entry\<close> returns, by what the resolution of the parent directory finds: an
  error of the resolution, a regular file, a directory without search permission
  (the tree is unchanged in these three cases), or a directory in which the operation
  is applied to the entry.
\<close>

lemma at_entry_Cons:
  "xs \<noteq> [] \<Longrightarrow> at_entry f (x # xs) (Dir m es) =
     (if \<not> searchable m then (Some EACCES, Dir m es)
      else case map_of es x of
             None \<Rightarrow> (Some ENOENT, Dir m es)
           | Some n \<Rightarrow> (case at_entry f xs n of (e, n') \<Rightarrow> (e, Dir m (AList.update x n' es))))"
  by (cases xs) auto

lemma at_entry_walk_err:
  "walk fs d = Inl er \<Longrightarrow> at_entry f (d @ [x]) fs = (Some er, fs)"
proof (induction d arbitrary: fs)
  case Nil
  then show ?case by simp
next
  case (Cons a d)
  show ?case
  proof (cases fs)
    case (File c)
    with Cons.prems show ?thesis by simp
  next
    case (Dir m es)
    with Cons.prems Cons.IH show ?thesis
      by (auto simp: at_entry_Cons update_same split: option.splits if_splits)
  qed
qed

lemma at_entry_walk_File:
  "walk fs d = Inr (File c) \<Longrightarrow> at_entry f (d @ [x]) fs = (Some ENOTDIR, fs)"
proof (induction d arbitrary: fs)
  case Nil
  then show ?case by simp
next
  case (Cons a d)
  show ?case
  proof (cases fs)
    case (File c')
    with Cons.prems show ?thesis by simp
  next
    case (Dir m es)
    with Cons.prems Cons.IH show ?thesis
      by (auto simp: at_entry_Cons update_same split: option.splits if_splits)
  qed
qed

lemma at_entry_walk_locked:
  "walk fs d = Inr (Dir m es) \<Longrightarrow> \<not> searchable m \<Longrightarrow> at_entry f (d @ [x]) fs = (Some EACCES, fs)"
proof (induction d arbitrary: fs)
  case Nil
  then show ?case by simp
next
  case (Cons a d)
  show ?case
  proof (cases fs)
    case (File c')
    with Cons.prems show ?thesis by simp
  next
    case (Dir m' es')
    with Cons.prems Cons.IH show ?thesis
      by (auto simp: at_entry_Cons update_same split: option.splits if_splits)
  qed
qed

lemma at_entry_walk_Dir:
  "walk fs d = Inr (Dir m es) \<Longrightarrow> searchable m \<Longrightarrow> f m (map_of es x) = (e, r) \<Longrightarrow>
   \<exists>fs' es'. at_entry f (d @ [x]) fs = (e, fs') \<and> walk fs' d = Inr (Dir m es')
      \<and> map_of es' = (map_of es)(x := r) \<and> (r = map_of es x \<longrightarrow> fs' = fs)"
proof (induction d arbitrary: fs)
  case Nil
  then show ?case
    by (cases r) (auto simp: alist_map_of_update alist_map_of_delete delete_absent update_same fun_eq_iff)
next
  case (Cons a d)
  show ?case
  proof (cases fs)
    case (File c')
    with Cons.prems show ?thesis by simp
  next
    case (Dir m' es')
    with Cons.prems obtain n where n: "searchable m'" "map_of es' a = Some n" "walk n d = Inr (Dir m es)"
      by (auto split: option.splits if_splits)
    from Cons.IH[OF n(3) Cons.prems(2,3)] obtain n' es'' where
      IH: "at_entry f (d @ [x]) n = (e, n')" "walk n' d = Inr (Dir m es'')"
          "map_of es'' = (map_of es)(x := r)" "r = map_of es x \<longrightarrow> n' = n"
      by blast
    have 1: "at_entry f ((a # d) @ [x]) fs = (e, Dir m' (AList.update a n' es'))"
      using Dir n IH(1) by (simp add: at_entry_Cons)
    have 2: "walk (Dir m' (AList.update a n' es')) (a # d) = Inr (Dir m es'')"
      using n(1) IH(2) by (simp add: alist_map_of_update)
    have 3: "r = map_of es x \<longrightarrow> Dir m' (AList.update a n' es') = fs"
      using IH(4) n(2) Dir by (simp add: update_same)
    from 1 2 3 IH(3) show ?thesis by blast
  qed
qed

text \<open>The same as one case distinction on a call of \<open>at_entry\<close>.\<close>

lemma at_entry_elim:
  assumes "at_entry f (d @ [x]) fs = (e, fs')"
  obtains (unreached) er where "e = Some er" "fs' = fs" "walk fs (d @ [x]) = Inl er"
      "er = ENOENT \<Longrightarrow> walk fs d = Inl ENOENT"
  | (reached) m es es' r where "walk fs d = Inr (Dir m es)" "searchable m"
      "f m (map_of es x) = (e, r)" "walk fs' d = Inr (Dir m es')"
      "map_of es' = (map_of es)(x := r)" "r = map_of es x \<Longrightarrow> fs' = fs"
proof (cases "walk fs d")
  case (Inl er)
  with assms at_entry_walk_err[OF Inl, of f x] show ?thesis
    by (intro unreached[of er]) (auto simp: walk_append)
next
  case (Inr n)
  show ?thesis
  proof (cases n)
    case (File c)
    with Inr assms at_entry_walk_File[of fs d c f x] show ?thesis
      by (intro unreached[of ENOTDIR]) (auto simp: walk_append)
  next
    case (Dir m es)
    show ?thesis
    proof (cases "searchable m")
      case False
      with Inr Dir assms at_entry_walk_locked[of fs d m es f x] show ?thesis
        by (intro unreached[of EACCES]) (auto simp: walk_append)
    next
      case True
      obtain e0 r where fr: "f m (map_of es x) = (e0, r)" by (cases "f m (map_of es x)")
      from at_entry_walk_Dir[of fs d m es f x e0 r] Inr Dir True fr assms
      obtain es' where "e0 = e" "walk fs' d = Inr (Dir m es')"
        "map_of es' = (map_of es)(x := r)" "r = map_of es x \<longrightarrow> fs' = fs"
        by auto
      with Inr Dir True fr show ?thesis by (intro reached[of m es r es']) auto
    qed
  qed
qed

lemma walk_snoc_Dir:
  "walk fs d = Inr (Dir m es) \<Longrightarrow> searchable m \<Longrightarrow>
   walk fs (d @ [x]) = (case map_of es x of None \<Rightarrow> Inl ENOENT | Some n \<Rightarrow> Inr n)"
  by (simp add: walk_append split: option.splits)

lemma node_at_snoc_Dir:
  "walk fs d = Inr (Dir m es) \<Longrightarrow> node_at fs (d @ [x]) = map_of es x"
  by (auto simp: node_at_append dest!: walk_Inr_node_at split: option.splits)

lemma node_at_under:
  "node_at fs p = r \<Longrightarrow> node_at fs (p @ t) = (case r of None \<Rightarrow> None | Some n \<Rightarrow> node_at n t)"
  by (simp add: node_at_append)

text \<open>Effect of an entry operation on the ground truth at and below the entry.\<close>

lemma at_entry_reached_node_at:
  assumes "walk fs d = Inr (Dir m es)" "walk fs' d = Inr (Dir m es')" "map_of es' = (map_of es)(x := r)"
  shows "node_at fs (d @ [x]) = map_of es x" "node_at fs' (d @ [x]) = r"
  using assms by (simp_all add: node_at_snoc_Dir)

lemma info_at_below_absent:
  "node_at fs p = None \<Longrightarrow> prefix p q \<Longrightarrow> info_at fs q = None"
  by (auto simp: prefix_def info_at_def node_at_append)

lemma node_at_File: "node_at (File c) t = Some y \<Longrightarrow> t = []"
  by (cases t) auto

lemma node_at_empty_Dir: "node_at (Dir m []) t = Some y \<Longrightarrow> t = []"
  by (cases t) auto

lemma info_at_below_File:
  "node_at fs p = Some (File c) \<Longrightarrow> strict_prefix p q \<Longrightarrow> info_at fs q = None"
  by (auto simp: strict_prefix_def prefix_def info_at_def node_at_append dest: node_at_File)

lemma info_at_below_empty:
  "node_at fs p = Some (Dir m []) \<Longrightarrow> strict_prefix p q \<Longrightarrow> info_at fs q = None"
  by (auto simp: strict_prefix_def prefix_def info_at_def node_at_append dest: node_at_empty_Dir)

lemma snoc_path: "p \<noteq> [] \<Longrightarrow> \<exists>d x. p = d @ [x]"
  by (metis append_butlast_last_id)

subsection \<open>Mkdir\<close>

text \<open>
  A successful \<^verbatim>\<open>mkdir\<close> makes an empty directory where nothing was; a failed one
  changes nothing. No other entry is affected.
\<close>

lemma Mkdir_effect:
  assumes "Mkdir p fs = (e, fs')"
  shows "(e \<noteq> None \<and> fs' = fs) \<or>
         (e = None \<and> node_at fs p = None \<and> node_at fs' p = Some (Dir ModePerm []))"
proof (cases "p = []")
  case True
  with assms show ?thesis by (auto simp: Mkdir_def)
next
  case False
  then obtain d x where p: "p = d @ [x]" using snoc_path by blast
  from assms have "at_entry mkdir_op (d @ [x]) fs = (e, fs')" by (simp add: Mkdir_def p)
  then show ?thesis
  proof (cases rule: at_entry_elim)
    case (unreached er)
    then show ?thesis by simp
  next
    case (reached m es es' r)
    from reached(3) show ?thesis
      using at_entry_reached_node_at[OF reached(1,4,5)] reached(6)
      by (auto simp: mkdir_op_def p split: option.splits if_splits)
  qed
qed

lemma Mkdir_info:
  assumes "Mkdir p fs = (e, fs')"
  shows "info_at fs' q = info_at fs q \<or>
         (q = p \<and> info_at fs q = None \<and> info_at fs' q = Some (IsDir ModePerm))"
proof -
  from Mkdir_effect[OF assms] show ?thesis
  proof
    assume "e \<noteq> None \<and> fs' = fs" then show ?thesis by simp
  next
    assume a: "e = None \<and> node_at fs p = None \<and> node_at fs' p = Some (Dir ModePerm [])"
    show ?thesis
    proof (cases "prefix p q")
      case False
      from at_entry_info_frame[OF False, of mkdir_op fs] assms show ?thesis
        by (simp add: Mkdir_def)
    next
      case True
      show ?thesis
      proof (cases "q = p")
        case True
        with a show ?thesis by (simp add: info_at_def)
      next
        case False
        with True have "strict_prefix p q" by (simp add: strict_prefix_def)
        with a True info_at_below_absent[of fs p q] info_at_below_empty[of fs' p ModePerm q]
        show ?thesis by simp
      qed
    qed
  qed
qed

subsection \<open>MkdirAll\<close>

text \<open>
  \<^verbatim>\<open>MkdirAll\<close> of \<open>p\<close>, successful or not, changes entries only by making directories
  at \<open>p\<close> or above it where nothing was.
\<close>

lemma MkdirAll_info:
  "MkdirAll p fs = (e, fs') \<Longrightarrow>
     info_at fs' q = info_at fs q \<or>
     (prefix q p \<and> info_at fs q = None \<and> info_at fs' q = Some (IsDir ModePerm))"
proof (induction p fs arbitrary: e fs' rule: MkdirAll.induct)
  case (1 p fs)
  show ?case
  proof (cases "Stat fs p")
    case (Inr n)
    with "1.prems" show ?thesis by (subst (asm) MkdirAll.simps) (auto split: if_splits)
  next
    case (Inl er)
    obtain e1 fs1 where par: "(if length p \<le> 1 then (None, fs) else MkdirAll (butlast p) fs) = (e1, fs1)"
      by (cases "if length p \<le> 1 then (None, fs) else MkdirAll (butlast p) fs")
    have step1: "info_at fs1 q = info_at fs q \<or>
       (prefix q p \<and> info_at fs q = None \<and> info_at fs1 q = Some (IsDir ModePerm))"
    proof (cases "length p \<le> 1")
      case True
      with par show ?thesis by simp
    next
      case False
      with par have "MkdirAll (butlast p) fs = (e1, fs1)" by simp
      from "1.IH"[OF Inl False this] show ?thesis
        by (auto intro: prefix_order.trans prefixeq_butlast)
    qed
    show ?thesis
    proof (cases e1)
      case (Some a)
      with "1.prems" Inl par have "fs' = fs1"
        by (subst (asm) MkdirAll.simps) (simp split: if_splits)
      with step1 show ?thesis by simp
    next
      case None
      obtain e2 fs2 where mk: "Mkdir p fs1 = (e2, fs2)" by (cases "Mkdir p fs1")
      with "1.prems" Inl par None have "fs' = fs2"
        by (subst (asm) MkdirAll.simps) (auto split: if_splits option.splits sum.splits)
      with Mkdir_info[OF mk, of q] step1 show ?thesis by auto
    qed
  qed
qed

section \<open>The file-system calls of the program\<close>

lemma walk_Nil_not_err: "walk fs p = Inl er \<Longrightarrow> p \<noteq> []"
  by auto

subsection \<open>createDir\<close>

text \<open>
  When a node exists at the path, \<^verbatim>\<open>os.Stat\<close> succeeds or fails with \<^verbatim>\<open>EACCES\<close>, never
  with \<^verbatim>\<open>ENOENT\<close>: \<open>createDir\<close> and \<open>createFile\<close> return at once.
\<close>

lemma Stat_exists: "node_at fs p = Some n \<Longrightarrow> \<not> IsNotExist (err_of (Stat fs p))"
  by (auto simp: IsNotExist_def Stat_def dest: node_at_Some_walk)

lemma createDir_exists: "node_at fs p = Some n \<Longrightarrow> createDir p fs = (None, fs)"
  by (simp add: createDir_def Stat_exists)

lemma createFile_exists: "node_at fs p = Some n \<Longrightarrow> createFile p content fs = (None, fs)"
  by (simp add: createFile_def Stat_exists)

lemma createDir_info:
  assumes "createDir p fs = (e, fs')"
  shows "info_at fs' q = info_at fs q \<or>
         (prefix q p \<and> info_at fs q = None \<and> info_at fs' q = Some (IsDir ModePerm))"
proof (cases "IsNotExist (err_of (Stat fs p))")
  case False
  with assms show ?thesis by (simp add: createDir_def)
next
  case True
  obtain e1 fs1 where m: "MkdirAll p fs = (e1, fs1)" by (cases "MkdirAll p fs")
  with assms True have "fs' = fs1" by (simp add: createDir_def)
  with MkdirAll_info[OF m, of q] show ?thesis by simp
qed

subsection \<open>createFile\<close>

text \<open>
  \<open>createFile\<close> either leaves the tree as it is, or it succeeds and has made the file
  with the given content where nothing was, and then no other entry is affected.
\<close>

lemma createFile_effect:
  assumes "createFile p content fs = (e, fs')"
  shows "fs' = fs \<or>
         (e = None \<and> node_at fs p = None \<and> node_at fs' p = Some (File content)
          \<and> (\<forall>q. q \<noteq> p \<longrightarrow> info_at fs' q = info_at fs q))"
proof (cases "IsNotExist (err_of (Stat fs p))")
  case False
  with assms show ?thesis by (simp add: createFile_def)
next
  case True
  then have w: "walk fs p = Inl ENOENT"
    by (cases "walk fs p") (auto simp: IsNotExist_def Stat_def)
  then have absent: "node_at fs p = None" by (rule walk_ENOENT_node_at)
  from w have "p \<noteq> []" by auto
  then obtain d x where p: "p = d @ [x]" using snoc_path by blast
  obtain e1 fs1 where c: "Create p fs = (e1, fs1)" by (cases "Create p fs")
  then have "at_entry create_op (d @ [x]) fs = (e1, fs1)" by (simp add: Create_def p)
  then show ?thesis
  proof (cases rule: at_entry_elim)
    case (unreached er)
    with assms True c show ?thesis by (simp add: createFile_def)
  next
    case (reached m es es' r)
    from reached(1) absent have none: "map_of es x = None"
      by (simp add: p node_at_snoc_Dir)
    show ?thesis
    proof (cases "writable m")
      case False
      with reached(3) none have "e1 = Some EACCES" "r = None" by (auto simp: create_op_def)
      with reached(6) none assms True c show ?thesis by (simp add: createFile_def)
    next
      case wr: True
      with reached(3) none have e1: "e1 = None" and r: "r = Some (File [])"
        by (auto simp: create_op_def)
      obtain e2 fs2 where ws: "WriteString p content fs1 = (e2, fs2)"
        by (cases "WriteString p content fs1")
      then have "at_entry (write_op content) (d @ [x]) fs1 = (e2, fs2)"
        by (simp add: WriteString_def p)
      then have res: "e2 = None \<and> node_at fs2 p = Some (File content)"
      proof (cases rule: at_entry_elim)
        case (unreached er)
        with reached(2,4,5) r show ?thesis by (simp add: walk_append)
      next
        case inner: (reached m2 es2 es2' r2)
        from inner(1) reached(4) have "m2 = m" "es2 = es'" by simp_all
        with inner(3) reached(5) r have "e2 = None" "r2 = Some (File content)"
          by (auto simp: write_op_def)
        with inner(4,5) show ?thesis by (simp add: p node_at_snoc_Dir)
      qed
      from assms True c e1 ws res have fs': "fs' = fs2" and e: "e = None"
        by (auto simp: createFile_def)
      have frame: "info_at fs2 q = info_at fs q" if "q \<noteq> p" for q
      proof (cases "prefix p q")
        case False
        from at_entry_info_frame[OF False, of create_op fs] c
        have "info_at fs1 q = info_at fs q" by (simp add: Create_def)
        moreover from at_entry_info_frame[OF False, of "write_op content" fs1] ws
        have "info_at fs2 q = info_at fs1 q" by (simp add: WriteString_def)
        ultimately show ?thesis by simp
      next
        case True
        with that have "strict_prefix p q" by (simp add: strict_prefix_def)
        with res absent True info_at_below_absent[of fs p q] info_at_below_File[of fs2 p content q]
        show ?thesis by simp
      qed
      from res absent frame fs' e show ?thesis by simp
    qed
  qed
qed

lemma createFile_info:
  assumes "createFile p content fs = (e, fs')"
  shows "info_at fs' q = info_at fs q \<or>
         (q = p \<and> info_at fs q = None \<and> info_at fs' q = Some (IsFile content))"
proof (cases "q = p")
  case True
  with createFile_effect[OF assms] show ?thesis by (auto simp: info_at_def)
next
  case False
  with createFile_effect[OF assms] show ?thesis by auto
qed

subsection \<open>Remove\<close>

text \<open>
  \<^verbatim>\<open>os.Remove\<close> either fails and changes nothing, or removes the entry; it reports
  \<^verbatim>\<open>ENOENT\<close> exactly when resolving the path does.
\<close>

lemma Remove_effect:
  assumes "Remove p fs = (e, fs')"
  shows "(e \<noteq> None \<and> fs' = fs) \<or>
         (e = None \<and> walk fs' p = Inl ENOENT \<and> (\<forall>q. q \<noteq> p \<longrightarrow> info_at fs' q = info_at fs q))"
proof (cases "p = []")
  case True
  with assms show ?thesis by (auto simp: Remove_def)
next
  case False
  then obtain d x where p: "p = d @ [x]" using snoc_path by blast
  from assms have "at_entry remove_op (d @ [x]) fs = (e, fs')" by (simp add: Remove_def p)
  then show ?thesis
  proof (cases rule: at_entry_elim)
    case (unreached er)
    then show ?thesis by simp
  next
    case (reached m es es' r)
    show ?thesis
    proof (cases e)
      case (Some a)
      with reached(3) have "r = map_of es x"
        by (auto simp: remove_op_def split: option.splits node.splits if_splits)
      with reached(6) Some show ?thesis by simp
    next
      case None
      with reached(3) have r: "r = None"
        and was: "(\<exists>c. map_of es x = Some (File c)) \<or> (\<exists>dm. map_of es x = Some (Dir dm []))"
        by (auto simp: remove_op_def split: option.splits node.splits if_splits)
      from reached(4,5) r reached(2) have gone: "walk fs' p = Inl ENOENT"
        by (simp add: p walk_snoc_Dir)
      have frame: "info_at fs' q = info_at fs q" if "q \<noteq> p" for q
      proof (cases "prefix p q")
        case False
        from at_entry_info_frame[OF False, of remove_op fs] assms
        show ?thesis by (simp add: Remove_def)
      next
        case True
        with that have sp: "strict_prefix p q" by (simp add: strict_prefix_def)
        from gone have "node_at fs' p = None" by (rule walk_ENOENT_node_at)
        from this True have 1: "info_at fs' q = None" by (rule info_at_below_absent)
        from reached(1) have "node_at fs p = map_of es x" by (simp add: p node_at_snoc_Dir)
        with was sp have "info_at fs q = None"
          by (auto dest: info_at_below_File info_at_below_empty)
        with 1 show ?thesis by simp
      qed
      from None gone frame show ?thesis by simp
    qed
  qed
qed

lemma Remove_absent:
  assumes "walk fs p = Inl ENOENT"
  shows "Remove p fs = (Some ENOENT, fs)"
proof -
  from assms have "p \<noteq> []" by auto
  then obtain d x where p: "p = d @ [x]" using snoc_path by blast
  obtain e fs' where r: "Remove p fs = (e, fs')" by (cases "Remove p fs")
  then have "at_entry remove_op (d @ [x]) fs = (e, fs')" by (simp add: Remove_def p)
  then have "e = Some ENOENT \<and> fs' = fs"
  proof (cases rule: at_entry_elim)
    case (unreached er)
    with assms show ?thesis by (simp add: p)
  next
    case (reached m es es' r)
    from reached(1,2) assms have "map_of es x = None"
      by (simp add: p walk_snoc_Dir split: option.splits)
    with reached(3,6) show ?thesis by (auto simp: remove_op_def)
  qed
  with r show ?thesis by simp
qed

lemma Remove_ENOENT:
  assumes "Remove p fs = (Some ENOENT, fs')"
  shows "walk fs p = Inl ENOENT"
proof (cases "p = []")
  case True
  with assms show ?thesis by (simp add: Remove_def)
next
  case False
  then obtain d x where p: "p = d @ [x]" using snoc_path by blast
  from assms have "at_entry remove_op (d @ [x]) fs = (Some ENOENT, fs')" by (simp add: Remove_def p)
  then show ?thesis
  proof (cases rule: at_entry_elim)
    case (unreached er)
    then show ?thesis by (simp add: p)
  next
    case (reached m es es' r)
    from reached(3) have "map_of es x = None"
      by (auto simp: remove_op_def split: option.splits node.splits if_splits)
    with reached(1,2) show ?thesis by (simp add: p walk_snoc_Dir)
  qed
qed

subsection \<open>RemoveAll\<close>

text \<open>
  \<^verbatim>\<open>os.RemoveAll\<close> of \<open>p\<close> affects entries at and below \<open>p\<close> only; after a successful
  call the path \<open>p\<close> resolves to \<^verbatim>\<open>ENOENT\<close>; and on a path that resolves to \<^verbatim>\<open>ENOENT\<close> it
  succeeds without a change.
\<close>

lemma removeAllFrom_success: "removeAllFrom pm n = (None, r) \<Longrightarrow> r = None"
  by (cases n) (auto split: if_splits prod.splits option.splits)

lemma RemoveAll_cases:
  "snd (RemoveAll p fs) = snd (Remove p fs) \<or>
   snd (RemoveAll p fs) = snd (at_entry removeAll_op p (snd (Remove p fs)))"
  by (auto simp: RemoveAll_def split: prod.splits option.splits)

lemma RemoveAll_info_frame:
  assumes "\<not> prefix p q"
  shows "info_at (snd (RemoveAll p fs)) q = info_at fs q"
  using RemoveAll_cases[of p fs] at_entry_info_frame[OF assms, of remove_op fs]
    at_entry_info_frame[OF assms, of removeAll_op "snd (Remove p fs)"]
  by (auto simp: Remove_def)

lemma RemoveAll_walk_frame:
  assumes "\<not> prefix p q" "\<not> prefix q p"
  shows "walk (snd (RemoveAll p fs)) q = walk fs q"
  using RemoveAll_cases[of p fs] at_entry_walk_frame[OF assms, of remove_op fs]
    at_entry_walk_frame[OF assms, of removeAll_op "snd (Remove p fs)"]
  by (auto simp: Remove_def)

lemma RemoveAll_absent:
  "walk fs p = Inl ENOENT \<Longrightarrow> RemoveAll p fs = (None, fs)"
  by (simp add: RemoveAll_def Remove_absent IsNotExist_def)

lemma RemoveAll_success:
  assumes "RemoveAll p fs = (None, fs')"
  shows "walk fs' p = Inl ENOENT"
proof -
  obtain e1 fs1 where r: "Remove p fs = (e1, fs1)" by (cases "Remove p fs")
  show ?thesis
  proof (cases e1)
    case None
    with assms r have "fs' = fs1" by (simp add: RemoveAll_def)
    with Remove_effect[OF r] None show ?thesis by simp
  next
    case (Some er)
    with Remove_effect[OF r] have same: "fs1 = fs" by simp
    show ?thesis
    proof (cases "er = ENOENT")
      case True
      with assms r Some same have "fs' = fs" by (simp add: RemoveAll_def IsNotExist_def)
      with Remove_ENOENT[of p fs fs1] r Some True show ?thesis by simp
    next
      case False
      show ?thesis
      proof (cases "Open fs (butlast p)")
        case (Some e')
        with assms r \<open>e1 = Some er\<close> same False have "e' = ENOENT" "fs' = fs"
          by (auto simp: RemoveAll_def IsNotExist_def split: if_splits)
        with Some have "walk fs (butlast p) = Inl ENOENT"
          by (auto simp: Open_def split: sum.splits node.splits if_splits)
        moreover have "p \<noteq> []" using r \<open>e1 = Some er\<close> False Some \<open>e' = ENOENT\<close>
          by (auto simp: Open_def split: sum.splits node.splits if_splits)
        ultimately have "walk fs p = Inl ENOENT"
          using walk_append[of fs "butlast p" "[last p]"] by simp
        with \<open>fs' = fs\<close> show ?thesis by simp
      next
        case None
        with assms r \<open>e1 = Some er\<close> same False
        have a: "at_entry removeAll_op p fs = (None, fs')"
          by (auto simp: RemoveAll_def IsNotExist_def)
        then have "p \<noteq> []" by auto
        then obtain d x where p: "p = d @ [x]" using snoc_path by blast
        from a have "at_entry removeAll_op (d @ [x]) fs = (None, fs')" by (simp add: p)
        then show ?thesis
        proof (cases rule: at_entry_elim)
          case (unreached er)
          then show ?thesis by simp
        next
          case (reached m es es' r)
          from reached(3) have "r = None"
            by (auto simp: removeAll_op_def split: option.splits dest: removeAllFrom_success)
          with reached(2,4,5) show ?thesis by (simp add: p walk_snoc_Dir)
        qed
      qed
    qed
  qed
qed

section \<open>The steps and loops of the program\<close>

text \<open>The paths of the program, joined.\<close>

lemma Join_dirs:
  "Join rootPath [''cmd/api''] = rootPath @ [''cmd'', ''api'']"
  "Join rootPath [''controller''] = rootPath @ [''controller'']"
  "Join rootPath [''models''] = rootPath @ [''models'']"
  "Join rootPath [''pkg''] = rootPath @ [''pkg'']"
  "Join rootPath [''config''] = rootPath @ [''config'']"
  "Join rootPath [''views''] = rootPath @ [''views'']"
  "Join rootPath [''router''] = rootPath @ [''router'']"
  "Join rootPath [''middleware''] = rootPath @ [''middleware'']"
  "Join rootPath [''cmd''] = rootPath @ [''cmd'']"
  "Join rootPath [''go.mod''] = rootPath @ [''go.mod'']"
  by (simp_all add: Join_def)

lemma Join_files:
  "Join rootPath [''cmd/api'', ''main.go''] = rootPath @ [''cmd'', ''api'', ''main.go'']"
  "Join rootPath [''controller'', ''home_controller.go''] = rootPath @ [''controller'', ''home_controller.go'']"
  "Join rootPath [''models'', ''user.go''] = rootPath @ [''models'', ''user.go'']"
  "Join rootPath [''pkg'', ''utility.go''] = rootPath @ [''pkg'', ''utility.go'']"
  "Join rootPath [''router'', ''router.go''] = rootPath @ [''router'', ''router.go'']"
  "Join rootPath [''middleware'', ''request_logger.go''] = rootPath @ [''middleware'', ''request_logger.go'']"
  by (simp_all add: Join_def)

lemma deleteNames_Join: "d \<in> set deleteNames \<Longrightarrow> Join rootPath [d] = rootPath @ [d]"
  by (auto simp: deleteNames_def Join_dirs)

text \<open>
  After the line is read and the initialiser has succeeded, \<open>setupMVC\<close> is the
  directory loop followed by the six \<open>createFile\<close> calls.
\<close>

lemma setupMVC_steps:
  assumes "ReadString stdin = Inr line" "goModInit rootPath (TrimSpace line) fs = (None, fs0)"
  shows "setupMVC goModInit stdin rootPath fs =
           thenDo (createDirs (dirs rootPath) fs0) (createFiles (files rootPath (TrimSpace line)))"
proof -
  have 1: "thenDo r (\<lambda>fs7. (None, fs7)) = r" for r
    by (auto simp: thenDo_def split: prod.splits option.splits)
  have 2: "createFiles ((p, c) # rest) = (\<lambda>fs. thenDo (createFile p c fs) (createFiles rest))"
    for p c rest by (rule ext) simp
  have 3: "createFiles [] = (\<lambda>fs. (None, fs))" by (rule ext) simp
  show ?thesis using assms
    by (simp add: setupMVC_def files_def Let_def 1 2 3)
qed

subsection \<open>createDirs / createFiles\<close>

lemma thenDo_cases:
  assumes "thenDo r rest = (e, fs')"
  obtains (stop) er where "r = (Some er, fs')" "e = Some er"
  | (go) fs1 where "r = (None, fs1)" "rest fs1 = (e, fs')"
  using assms by (auto simp: thenDo_def split: prod.splits option.splits)

text \<open>
  The directory loop changes entries only by making directories, at one of the eight
  paths or above it, where nothing was; the file calls only by writing one of the six
  files where nothing was.
\<close>

lemma createDirs_info:
  "createDirs ds fs = (e, fs') \<Longrightarrow>
     info_at fs' q = info_at fs q \<or>
     ((\<exists>d\<in>set ds. prefix q d) \<and> info_at fs q = None \<and> info_at fs' q = Some (IsDir ModePerm))"
proof (induction ds arbitrary: fs e fs')
  case Nil
  then show ?case by simp
next
  case (Cons d ds)
  from Cons.prems have "thenDo (createDir d fs) (createDirs ds) = (e, fs')" by simp
  then show ?case
  proof (cases rule: thenDo_cases)
    case (stop er)
    from createDir_info[OF stop(1), of q] show ?thesis by auto
  next
    case (go fs1)
    from createDir_info[OF go(1), of q] Cons.IH[OF go(2)] show ?thesis by auto
  qed
qed

lemma createFiles_info:
  "createFiles fls fs = (e, fs') \<Longrightarrow>
     info_at fs' q = info_at fs q \<or>
     (info_at fs q = None \<and> (\<exists>c. (q, c) \<in> set fls \<and> info_at fs' q = Some (IsFile c)))"
proof (induction fls arbitrary: fs e fs')
  case Nil
  then show ?case by simp
next
  case (Cons a fls)
  obtain p c where a: "a = (p, c)" by (cases a)
  from Cons.prems have "thenDo (createFile p c fs) (createFiles fls) = (e, fs')" by (simp add: a)
  then show ?case
  proof (cases rule: thenDo_cases)
    case (stop er)
    from createFile_info[OF stop(1), of q] show ?thesis by (auto simp: a)
  next
    case (go fs1)
    from createFile_info[OF go(1), of q] Cons.IH[OF go(2)] show ?thesis by (auto simp: a)
  qed
qed

text \<open>What the directory and file steps of setupMVC may change.\<close>

lemma provision_info:
  assumes "thenDo (createDirs ds fs0) (createFiles fls) = (e, fs')"
  shows "info_at fs' q = info_at fs0 q \<or>
     (info_at fs0 q = None \<and>
       (((\<exists>d\<in>set ds. prefix q d) \<and> info_at fs' q = Some (IsDir ModePerm)) \<or>
        (\<exists>c. (q, c) \<in> set fls \<and> info_at fs' q = Some (IsFile c))))"
  using assms
proof (cases rule: thenDo_cases)
  case (stop er)
  from createDirs_info[OF stop(1), of q] show ?thesis by auto
next
  case (go fs1)
  from createDirs_info[OF go(1), of q] createFiles_info[OF go(2), of q] show ?thesis by auto
qed

subsection \<open>removeDirs\<close>

lemma removeDirs_info_frame:
  "(\<forall>d\<in>set ds. \<not> prefix (Join rootPath [d]) q) \<Longrightarrow>
   info_at (snd (removeDirs rootPath ds fs)) q = info_at fs q"
proof (induction ds arbitrary: fs)
  case Nil
  then show ?case by simp
next
  case (Cons d ds)
  from Cons.prems have np: "\<not> prefix (Join rootPath [d]) q" by simp
  obtain e1 fs1 where r: "RemoveAll (Join rootPath [d]) fs = (e1, fs1)"
    by (cases "RemoveAll (Join rootPath [d]) fs")
  from RemoveAll_info_frame[OF np, of fs] r have 1: "info_at fs1 q = info_at fs q" by simp
  from Cons.IH[of fs1] Cons.prems have 2: "info_at (snd (removeDirs rootPath ds fs1)) q = info_at fs1 q"
    by simp
  from r 1 2 show ?case by (cases e1) simp_all
qed

lemma removeDirs_walk_frame:
  "(\<forall>d\<in>set ds. \<not> prefix (Join rootPath [d]) q \<and> \<not> prefix q (Join rootPath [d])) \<Longrightarrow>
   walk (snd (removeDirs rootPath ds fs)) q = walk fs q"
proof (induction ds arbitrary: fs)
  case Nil
  then show ?case by simp
next
  case (Cons d ds)
  from Cons.prems have np: "\<not> prefix (Join rootPath [d]) q" "\<not> prefix q (Join rootPath [d])"
    by simp_all
  obtain e1 fs1 where r: "RemoveAll (Join rootPath [d]) fs = (e1, fs1)"
    by (cases "RemoveAll (Join rootPath [d]) fs")
  from RemoveAll_walk_frame[OF np, of fs] r have 1: "walk fs1 q = walk fs q" by simp
  from Cons.IH[of fs1] Cons.prems have 2: "walk (snd (removeDirs rootPath ds fs1)) q = walk fs1 q"
    by simp
  from r 1 2 show ?case by (cases e1) simp_all
qed

lemma removeDirs_absent:
  "(\<forall>d\<in>set ds. walk fs (Join rootPath [d]) = Inl ENOENT) \<Longrightarrow>
   removeDirs rootPath ds fs = (None, fs)"
  by (induction ds) (simp_all add: RemoveAll_absent)

lemma removeDirs_success:
  "removeDirs rootPath ds fs = (None, fs') \<Longrightarrow>
   (\<forall>d\<in>set ds. Join rootPath [d] = rootPath @ [d]) \<Longrightarrow>
   \<forall>d\<in>set ds. walk fs' (rootPath @ [d]) = Inl ENOENT"
proof (induction ds arbitrary: fs)
  case Nil
  then show ?case by simp
next
  case (Cons d ds)
  obtain e1 fs1 where r: "RemoveAll (Join rootPath [d]) fs = (e1, fs1)"
    by (cases "RemoveAll (Join rootPath [d]) fs")
  with Cons.prems(1) have e1: "e1 = None" and rest: "removeDirs rootPath ds fs1 = (None, fs')"
    by (cases e1; simp)+
  from Cons.IH[OF rest] Cons.prems(2)
  have IH: "\<forall>d\<in>set ds. walk fs' (rootPath @ [d]) = Inl ENOENT" by simp
  from RemoveAll_success[of "Join rootPath [d]" fs fs1] r e1 Cons.prems(2)
  have gone: "walk fs1 (rootPath @ [d]) = Inl ENOENT" by simp
  have "walk fs' (rootPath @ [d]) = Inl ENOENT"
  proof (cases "d \<in> set ds")
    case True
    with IH show ?thesis by simp
  next
    case False
    with Cons.prems(2)
    have "\<forall>d'\<in>set ds. \<not> prefix (Join rootPath [d']) (rootPath @ [d])
                     \<and> \<not> prefix (rootPath @ [d]) (Join rootPath [d'])"
      by auto
    from removeDirs_walk_frame[OF this, of fs1] rest gone show ?thesis by simp
  qed
  with IH show ?case by simp
qed

subsection \<open>deleteMVC\<close>

text \<open>
  The frame of \<open>deleteMVC\<close>; the state after a successful call, in which each of the
  nine paths resolves to \<^verbatim>\<open>ENOENT\<close>; and the call on such a state, which succeeds
  without a change.
\<close>

lemma walk_sibling:
  assumes "walk fs (r @ [a]) = Inl ENOENT"
  shows "walk fs (r @ [b]) = Inl ENOENT \<or> (\<exists>n. walk fs (r @ [b]) = Inr n)"
proof (cases "walk fs r")
  case (Inl e)
  with assms show ?thesis by (simp add: walk_append)
next
  case (Inr n)
  with assms show ?thesis
    by (cases n) (auto simp: walk_append split: if_splits option.splits)
qed

lemma deleteMVC_frame:
  assumes "\<forall>d\<in>set deleteNames. \<not> prefix (rootPath @ [d]) q" "q \<noteq> rootPath @ [''go.mod'']"
  shows "info_at (snd (deleteMVC rootPath fs)) q = info_at fs q"
proof -
  obtain e1 fs1 where r: "removeDirs rootPath deleteNames fs = (e1, fs1)"
    by (cases "removeDirs rootPath deleteNames fs")
  from assms(1) have "\<forall>d\<in>set deleteNames. \<not> prefix (Join rootPath [d]) q"
    by (simp add: deleteNames_Join)
  from removeDirs_info_frame[OF this, of fs] r have 1: "info_at fs1 q = info_at fs q" by simp
  show ?thesis
  proof (cases e1)
    case (Some a)
    with r 1 show ?thesis by (simp add: deleteMVC_def thenDo_def)
  next
    case None
    obtain e2 fs2 where rm: "Remove (rootPath @ [''go.mod'']) fs1 = (e2, fs2)"
      by (cases "Remove (rootPath @ [''go.mod'']) fs1")
    from Remove_effect[OF rm] assms(2) have "info_at fs2 q = info_at fs1 q" by auto
    with None r 1 rm show ?thesis
      by (cases e2) (simp_all add: deleteMVC_def thenDo_def Join_dirs Let_def)
  qed
qed

lemma deleteMVC_success:
  assumes "deleteMVC rootPath fs = (None, fs')"
  shows "(\<forall>d\<in>set deleteNames. walk fs' (rootPath @ [d]) = Inl ENOENT)
         \<and> walk fs' (rootPath @ [''go.mod'']) = Inl ENOENT"
proof -
  let ?g = "rootPath @ [''go.mod'']"
  obtain e1 fs1 where r: "removeDirs rootPath deleteNames fs = (e1, fs1)"
    by (cases "removeDirs rootPath deleteNames fs")
  with assms have e1: "e1 = None" by (cases e1) (simp_all add: deleteMVC_def thenDo_def)
  from removeDirs_success[of rootPath deleteNames fs fs1] r e1
  have gone1: "\<forall>d\<in>set deleteNames. walk fs1 (rootPath @ [d]) = Inl ENOENT"
    by (simp add: deleteNames_Join)
  then have "walk fs1 (rootPath @ [''middleware'']) = Inl ENOENT" by (simp add: deleteNames_def)
  from walk_sibling[OF this, of "''go.mod''"]
  have sib: "walk fs1 ?g = Inl ENOENT \<or> (\<exists>n. walk fs1 ?g = Inr n)" .
  show ?thesis
  proof (cases "err_of (Stat fs1 ?g) = None")
    case False
    with assms r e1 have "fs' = fs1" by (simp add: deleteMVC_def thenDo_def Join_dirs Let_def)
    moreover from False sib have "walk fs1 ?g = Inl ENOENT" by (auto simp: Stat_def)
    ultimately show ?thesis using gone1 by simp
  next
    case True
    obtain e2 fs2 where rm: "Remove ?g fs1 = (e2, fs2)" by (cases "Remove ?g fs1")
    with assms r e1 True have e2: "e2 = None" and fs': "fs' = fs2"
      by (cases e2; simp add: deleteMVC_def thenDo_def Join_dirs Let_def)+
    from Remove_effect[OF rm] e2 have g: "walk fs2 ?g = Inl ENOENT" by simp
    have "walk fs2 (rootPath @ [d]) = Inl ENOENT" if "d \<in> set deleteNames" for d
    proof -
      from that have "d \<noteq> ''go.mod''" by (auto simp: deleteNames_def)
      then have "\<not> prefix ?g (rootPath @ [d])" "\<not> prefix (rootPath @ [d]) ?g" by auto
      from at_entry_walk_frame[OF this, of remove_op fs1] rm gone1 that
      show ?thesis by (simp add: Remove_def)
    qed
    with g fs' show ?thesis by simp
  qed
qed

lemma deleteMVC_absent:
  assumes "\<forall>d\<in>set deleteNames. walk fs (rootPath @ [d]) = Inl ENOENT"
    and "walk fs (rootPath @ [''go.mod'']) = Inl ENOENT"
  shows "deleteMVC rootPath fs = (None, fs)"
proof -
  from assms(1) have "\<forall>d\<in>set deleteNames. walk fs (Join rootPath [d]) = Inl ENOENT"
    by (simp add: deleteNames_Join)
  from removeDirs_absent[OF this] assms(2) show ?thesis
    by (simp add: deleteMVC_def thenDo_def Join_dirs Stat_def Let_def)
qed

section \<open>The examples, evaluated\<close>

text \<open>The example project is provisioned and decommissioned again.\<close>

lemmas fs_eval =
  Join_def dirs_def files_def deleteNames_def thenDo_def createDir_def createFile_def
  Stat_def Lstat_def IsNotExist_def Mkdir_def mkdir_op_def MkdirAll.simps Create_def create_op_def
  WriteString_def write_op_def Remove_def remove_op_def RemoveAll_def removeAll_op_def
  Open_def deleteMVC_def ModePerm_def info_at_def

lemma ReadString_example: "ReadString exampleInput = Inr exampleInput"
  by (simp add: ReadString_def exampleInput_def NL_def)

lemma TrimSpace_example: "TrimSpace exampleInput = exampleModule"
  by code_simp

lemma stubInit_example:
  "stubInit [''proj''] (TrimSpace exampleInput) exampleFS = (None, initializedFS)"
  by (simp add: TrimSpace_example stubInit_def exampleFS_def initializedFS_def fs_eval)

lemma setupMVC_example:
  "setupMVC stubInit exampleInput [''proj''] exampleFS = (None, provisionedFS)"
  by (subst setupMVC_steps[of exampleInput exampleInput stubInit "[''proj'']" exampleFS
        initializedFS, OF ReadString_example stubInit_example])
     (simp add: TrimSpace_example initializedFS_def provisionedFS_def fs_eval)

lemma deleteMVC_example: "deleteMVC [''proj''] provisionedFS = (None, exampleFS)"
  by (simp add: provisionedFS_def exampleFS_def fs_eval)

section \<open>The templates as strings\<close>

text \<open>
  The two rendered contents: the text before the first substitution point, the
  identifier between its quote and the package name, and the text after.
\<close>

lemma mainGoContent_shape:
  \<open>mainGoContent m =
     (unlines [''package main'', '''', ''import ('', [TAB] @ ''"fmt"'',
               [TAB] @ ''"github.com/gin-gonic/gin"''] @ [TAB])
     @ (''"'' @ m @ ''/router"'')
     @ ([NL] @ unlines ['')'', '''', ''func main() {'',
               [TAB] @ ''fmt.Println("Starting the Gin server...")'',
               [TAB] @ ''r := gin.Default()'',
               [TAB] @ ''router.InitializeRoutes(r)'',
               [TAB] @ ''r.Run(":8080")'',
               ''}''])\<close>
  by (simp add: mainGoContent_def mainGoFormat_def unlines_def TAB_def NL_def)

lemma routerContent_shape:
  \<open>routerContent m =
     (unlines [''package router'', '''', ''import ('',
               [TAB] @ ''"github.com/gin-gonic/gin"''] @ [TAB])
     @ (''"'' @ m @ ''/controller"'')
     @ [NL, TAB]
     @ (''"'' @ m @ ''/middleware"'')
     @ ([NL] @ unlines ['')'', '''',
               ''// InitializeRoutes sets up the application's routes'',
               ''func InitializeRoutes(r *gin.Engine) {'',
               [TAB] @ ''r.Use(middleware.RequestLogger())'',
               '''',
               [TAB] @ ''r.GET("/", controller.HomeController)'',
               ''}''])\<close>
  by (simp add: routerContent_def routerFormat_def unlines_def TAB_def NL_def)

lemma sublist_mid: "sublist xs (ps @ xs @ ss)"
  by (auto simp: sublist_def)

lemma sublist_mid2: "sublist xs (ps @ ys @ qs @ xs @ ss)"
proof -
  have "ps @ ys @ qs @ xs @ ss = (ps @ ys @ qs) @ xs @ ss" by simp
  then show ?thesis unfolding sublist_def by blast
qed

text \<open>
  A text in which a quote, an identifier without a newline and a slash follow one
  another passes the test \<open>quoted_ref\<close>; the model and the utility file do not pass.
\<close>

lemma slash_in_line_append: "NL \<notin> set m \<Longrightarrow> slash_in_line (m @ CHR ''/'' # ss)"
  by (induction m) auto

lemma quoted_ref_append: "quoted_ref (CHR 0x22 # m @ CHR ''/'' # ss) \<Longrightarrow> quoted_ref (ps @ CHR 0x22 # m @ CHR ''/'' # ss)"
  by (induction ps) auto

lemma sublist_quoted_ref:
  assumes "NL \<notin> set m" "sublist (CHR 0x22 # m @ ''/'') s"
  shows "quoted_ref s"
proof -
  from assms(2) obtain ps ss where "s = ps @ (CHR 0x22 # m @ ''/'') @ ss"
    by (auto simp: sublist_def)
  then have s: "s = ps @ CHR 0x22 # m @ CHR ''/'' # ss" by simp
  from assms(1) have "quoted_ref (CHR 0x22 # m @ CHR ''/'' # ss)"
    by (simp add: slash_in_line_append)
  then show ?thesis unfolding s by (rule quoted_ref_append)
qed

lemma no_quoted_ref_model: "\<not> quoted_ref modelContent"
  by (simp add: modelContent_def unlines_def TAB_def NL_def)

lemma no_quoted_ref_pkg: "\<not> quoted_ref pkgContent"
  by (simp add: pkgContent_def unlines_def TAB_def NL_def)




section \<open>Module identifiers are single lines\<close>

lemma stripLeading_suffix: "suffix (stripLeading ws s) s"
proof (induction ws s rule: stripLeading.induct)
  case (1 ws s)
  show ?case
  proof (cases "find (\<lambda>w. w \<noteq> [] \<and> prefix w s) ws")
    case None
    then show ?thesis by (subst stripLeading.simps) simp
  next
    case (Some w)
    from "1.IH"[OF Some] have "suffix (stripLeading ws (drop (length w) s)) s"
      by (rule suffix_order.trans) (rule suffix_drop)
    with Some show ?thesis by (subst stripLeading.simps) simp
  qed
qed

lemma stripLeading_Nil: "stripLeading ws [] = []"
  using stripLeading_suffix[of ws "[]"] by simp

lemma stripLeading_NL:
  "stripLeading (map rev spaceRunes) (NL # zs) = stripLeading (map rev spaceRunes) zs"
  by (subst stripLeading.simps) (simp add: spaceRunes_def NL_def)

text \<open>
  Whatever is typed at the prompt, the project name that \<open>setupMVC\<close> works with
  contains no newline: \<open>ReadString\<close> stops at the first one and \<open>TrimSpace\<close> removes it.
\<close>

lemma TrimSpace_single_line:
  assumes "ReadString stdin = Inr line"
  shows "NL \<notin> set (TrimSpace line)"
proof -
  from assms obtain xs where line: "line = xs @ [NL]" and xs: "NL \<notin> set xs"
    by (auto simp: ReadString_def split: if_splits dest: set_takeWhileD)
  let ?t = "stripLeading spaceRunes line"
  have "suffix ?t (xs @ [NL])" unfolding line[symmetric] by (rule stripLeading_suffix)
  then consider "?t = []" | ys where "?t = ys @ [NL]" "suffix ys xs"
    by (cases ?t rule: rev_cases) (auto simp: suffix_def)
  then show ?thesis
  proof cases
    case 1
    then show ?thesis by (simp add: TrimSpace_def stripLeading_Nil)
  next
    case 2
    have "suffix (stripLeading (map rev spaceRunes) (rev ys)) (rev ys)"
      by (rule stripLeading_suffix)
    then have "set (stripLeading (map rev spaceRunes) (rev ys)) \<subseteq> set ys"
      using set_mono_suffix by fastforce
    moreover from 2(2) have "set ys \<subseteq> set xs" by (rule set_mono_suffix)
    ultimately show ?thesis using xs 2(1)
      by (auto simp: TrimSpace_def stripLeading_NL)
  qed
qed

section \<open>What a provisioning run may change\<close>

lemma setupMVC_preserves:
  assumes "ReadString stdin = Inr line"
    and "goModInit rootPath (TrimSpace line) fs = (ie, fsi)"
    and "node_at fsi q = Some n"
  shows "info_at (snd (setupMVC goModInit stdin rootPath fs)) q = Some (info_of n)"
proof (cases ie)
  case (Some err)
  with assms show ?thesis by (simp add: setupMVC_def info_at_def)
next
  case None
  obtain e fs' where r: "thenDo (createDirs (dirs rootPath) fsi)
      (createFiles (files rootPath (TrimSpace line))) = (e, fs')"
    by (cases "thenDo (createDirs (dirs rootPath) fsi) (createFiles (files rootPath (TrimSpace line)))")
  from provision_info[OF r, of q] assms(3) have "info_at fs' q = Some (info_of n)"
    by (auto simp: info_at_def)
  with setupMVC_steps[of stdin line goModInit rootPath fs fsi] assms(1,2) None r
  show ?thesis by simp
qed

lemma info_at_File: "info_at fs p = Some (IsFile c) \<longleftrightarrow> node_at fs p = Some (File c)"
  by (cases "node_at fs p"; simp add: info_at_def; case_tac a; simp)

lemma files_under_names:
  assumes "(q, c) \<in> set (files rootPath m)"
  shows "\<exists>d\<in>set deleteNames. prefix (rootPath @ [d]) q"
  using assms by (auto simp: files_def Join_files deleteNames_def)

lemma dirs_prefix:
  assumes "d \<in> set (dirs rootPath)" "prefix q d"
  shows "prefix q rootPath \<or> (\<exists>d\<in>set deleteNames. prefix (rootPath @ [d]) q)"
proof -
  from assms(1) consider "d = rootPath @ [''cmd'', ''api'']"
    | x where "x \<in> set deleteNames" "d = rootPath @ [x]"
    by (auto simp: dirs_def Join_dirs deleteNames_def)
  then show ?thesis
  proof cases
    case 1
    then have "d = (rootPath @ [''cmd'']) @ [''api'']" by simp
    with assms(2) have "q = (rootPath @ [''cmd'']) @ [''api''] \<or> q = rootPath @ [''cmd'']
        \<or> prefix q rootPath"
      by (metis prefix_snoc)
    then show ?thesis by (auto simp: deleteNames_def)
  next
    case 2
    with assms(2) have "q = rootPath @ [x] \<or> prefix q rootPath" by (simp add: prefix_snoc)
    with 2(1) show ?thesis by auto
  qed
qed

lemma files_lookup:
  "map_of (files rootPath m) (rootPath @ [''cmd'', ''api'', ''main.go'']) = Some (mainGoContent m)"
  "map_of (files rootPath m) (rootPath @ [''controller'', ''home_controller.go'']) = Some controllerContent"
  "map_of (files rootPath m) (rootPath @ [''models'', ''user.go'']) = Some modelContent"
  "map_of (files rootPath m) (rootPath @ [''pkg'', ''utility.go'']) = Some pkgContent"
  "map_of (files rootPath m) (rootPath @ [''router'', ''router.go'']) = Some (routerContent m)"
  "map_of (files rootPath m) (rootPath @ [''middleware'', ''request_logger.go'']) = Some middlewareContent"
  by (simp_all add: files_def Join_files)

text \<open>
  \<open>createDir\<close> returns an error only when \<^verbatim>\<open>os.Stat\<close> has reported \<^verbatim>\<open>ENOENT\<close> and
  \<^verbatim>\<open>os.MkdirAll\<close> has then failed. An error of the directory loop ends the run:
  \<open>setupMVC\<close> returns it with the file system the loop left, and no file is written.
\<close>

lemma createDir_error:
  assumes "createDir p fs = (Some err, fs')"
  shows "IsNotExist (err_of (Stat fs p)) \<and> (\<exists>e. err = PathError e \<and> MkdirAll p fs = (Some e, fs'))"
  using assms by (auto simp: createDir_def split: if_splits prod.splits)

lemma setupMVC_createDirs_failure:
  assumes "ReadString stdin = Inr line"
    and "goModInit rootPath (TrimSpace line) fs = (None, fsi)"
    and "createDirs (dirs rootPath) fsi = (Some err, fs')"
  shows "setupMVC goModInit stdin rootPath fs = (Some err, fs')"
  using setupMVC_steps[of stdin line goModInit rootPath fs fsi, OF assms(1,2)] assms(3)
  by (simp add: thenDo_def)

section \<open>The stand-in initialiser and further example runs\<close>

lemma stubInit_frame:
  assumes "\<not> prefix (rootPath @ [''go.mod'']) p"
  shows "info_at (snd (stubInit rootPath m fs)) p = info_at fs p"
proof -
  let ?g = "rootPath @ [''go.mod'']"
  obtain e1 fs1 where c: "Create ?g fs = (e1, fs1)" by (cases "Create ?g fs")
  obtain e2 fs2 where w: "WriteString ?g (''module '' @ m @ [NL]) fs1 = (e2, fs2)"
    by (cases "WriteString ?g (''module '' @ m @ [NL]) fs1")
  have 1: "info_at fs1 p = info_at fs p"
    using at_entry_info_frame[OF assms, of create_op fs] c by (simp add: Create_def)
  have 2: "info_at fs2 p = info_at fs1 p"
    using at_entry_info_frame[OF assms, of "write_op (''module '' @ m @ [NL])" fs1] w
    by (simp add: WriteString_def)
  from c w 1 2 show ?thesis
    by (cases e1; cases e2)
       (auto simp: stubInit_def Join_dirs split: sum.splits node.splits)
qed

lemma setupMVC_again_example:
  "setupMVC okInit exampleInput [''proj''] provisionedFS = (None, provisionedFS)"
proof -
  have "okInit [''proj''] (TrimSpace exampleInput) provisionedFS = (None, provisionedFS)"
    by (simp add: okInit_def)
  from setupMVC_steps[of exampleInput exampleInput okInit "[''proj'']" provisionedFS
        provisionedFS, OF ReadString_example this]
  show ?thesis by (simp add: provisionedFS_def fs_eval)
qed

text \<open>
  In a project directory that the process may not write, \<^verbatim>\<open>MkdirAll\<close> fails on the
  first directory and the run stops there with nothing created.
\<close>

lemma setupMVC_readonly_example:
  "setupMVC okInit exampleInput [''proj''] readonlyFS = (Some (PathError EACCES), readonlyFS)"
proof -
  have 1: "okInit [''proj''] (TrimSpace exampleInput) readonlyFS = (None, readonlyFS)"
    by (simp add: okInit_def)
  have 2: "createDirs (dirs [''proj'']) readonlyFS = (Some (PathError EACCES), readonlyFS)"
    by (simp add: readonlyFS_def fs_eval)
  from setupMVC_createDirs_failure[of exampleInput exampleInput okInit "[''proj'']" readonlyFS
      readonlyFS "PathError EACCES" readonlyFS, OF ReadString_example 1 2]
  show ?thesis .
qed


section \<open>Paths that os.Stat reports missing\<close>

text \<open>
  \<^verbatim>\<open>ENOENT\<close> in terms of the entries: nothing is at the path, and every entry on the
  way to it is a directory that can be searched.
\<close>

lemma strict_prefix_Cons:
  "strict_prefix q2 (x # t) \<longleftrightarrow> q2 = [] \<or> (\<exists>r. q2 = x # r \<and> strict_prefix r t)"
  by (cases q2) auto

lemma walk_ENOENT_iff:
  "walk fs q = Inl ENOENT \<longleftrightarrow>
     info_at fs q = None \<and>
     (\<forall>q2 k. strict_prefix q2 q \<longrightarrow> info_at fs q2 = Some k \<longrightarrow> (\<exists>m. k = IsDir m \<and> searchable m))"
proof (induction q arbitrary: fs)
  case Nil
  show ?case by (simp add: info_at_def)
next
  case (Cons x t)
  let ?P = "\<lambda>k. \<exists>m. k = IsDir m \<and> searchable m"
  show ?case
  proof (cases fs)
    case (File c)
    have "\<not> (\<forall>q2 k. strict_prefix q2 (x # t) \<longrightarrow> info_at (File c) q2 = Some k \<longrightarrow> ?P k)"
    proof
      assume "\<forall>q2 k. strict_prefix q2 (x # t) \<longrightarrow> info_at (File c) q2 = Some k \<longrightarrow> ?P k"
      then have "strict_prefix [] (x # t) \<longrightarrow> info_at (File c) [] = Some (IsFile c) \<longrightarrow> ?P (IsFile c)"
        by blast
      then show False by (simp add: info_at_def)
    qed
    moreover have "walk (File c) (x # t) \<noteq> Inl ENOENT" by simp
    ultimately show ?thesis unfolding File by blast
  next
    case (Dir m es)
    show ?thesis
    proof (cases "searchable m")
      case False
      have "\<not> (\<forall>q2 k. strict_prefix q2 (x # t) \<longrightarrow> info_at (Dir m es) q2 = Some k \<longrightarrow> ?P k)"
      proof
        assume "\<forall>q2 k. strict_prefix q2 (x # t) \<longrightarrow> info_at (Dir m es) q2 = Some k \<longrightarrow> ?P k"
        then have "strict_prefix [] (x # t) \<longrightarrow> info_at (Dir m es) [] = Some (IsDir m) \<longrightarrow> ?P (IsDir m)"
          by blast
        with False show False by (simp add: info_at_def)
      qed
      moreover from False have "walk (Dir m es) (x # t) \<noteq> Inl ENOENT" by simp
      ultimately show ?thesis unfolding Dir by blast
    next
      case True
      show ?thesis
      proof (cases "map_of es x")
        case None
        have 1: "info_at (Dir m es) (x # t) = None" by (simp add: info_at_def None)
        have 2: "?P k" if "strict_prefix q2 (x # t)" "info_at (Dir m es) q2 = Some k" for q2 k
        proof (cases q2)
          case Nil
          with that(2) True show ?thesis by (auto simp: info_at_def)
        next
          case (Cons y r)
          with that(1) have "y = x" by (auto simp: strict_prefix_def)
          with that(2) Cons None show ?thesis by (simp add: info_at_def)
        qed
        from True None have "walk (Dir m es) (x # t) = Inl ENOENT" by simp
        with 1 2 show ?thesis unfolding Dir by blast
      next
        case (Some n)
        have i: "info_at (Dir m es) (x # r) = info_at n r" for r
          by (simp add: info_at_def Some)
        have eq: "(\<forall>q2 k. strict_prefix q2 (x # t) \<longrightarrow> info_at (Dir m es) q2 = Some k \<longrightarrow> ?P k)
            \<longleftrightarrow> (\<forall>q2 k. strict_prefix q2 t \<longrightarrow> info_at n q2 = Some k \<longrightarrow> ?P k)"
          (is "?L \<longleftrightarrow> ?R")
        proof
          assume l: ?L
          show ?R
          proof (intro allI impI)
            fix q2 k assume "strict_prefix q2 t" "info_at n q2 = Some k"
            then have "strict_prefix (x # q2) (x # t)" "info_at (Dir m es) (x # q2) = Some k"
              by (simp_all add: i)
            with l show "?P k" by blast
          qed
        next
          assume r: ?R
          show ?L
          proof (intro allI impI)
            fix q2 k assume s: "strict_prefix q2 (x # t)" and k: "info_at (Dir m es) q2 = Some k"
            from s consider "q2 = []" | u where "q2 = x # u" "strict_prefix u t"
              unfolding strict_prefix_Cons by blast
            then show "?P k"
            proof cases
              case 1
              with k True show ?thesis by (auto simp: info_at_def)
            next
              case 2
              with k have "info_at n u = Some k" by (simp add: i)
              with r 2(2) show ?thesis by blast
            qed
          qed
        qed
        from True Some have w: "walk (Dir m es) (x # t) = walk n t" by simp
        show ?thesis unfolding Dir w i[of t] eq by (rule Cons.IH)
      qed
    qed
  qed
qed

lemma walk_ENOENT_pres:
  assumes "walk fs q = Inl ENOENT"
    and "info_at fs' q = None"
    and "\<And>q2. strict_prefix q2 q \<Longrightarrow>
           info_at fs' q2 = info_at fs q2 \<or> info_at fs' q2 = Some (IsDir ModePerm)"
  shows "walk fs' q = Inl ENOENT"
proof -
  from assms(1) have old: "\<exists>m. k = IsDir m \<and> searchable m"
    if "strict_prefix q2 q" "info_at fs q2 = Some k" for q2 k
    using that unfolding walk_ENOENT_iff by blast
  have "\<exists>m. k = IsDir m \<and> searchable m" if s: "strict_prefix q2 q" and k: "info_at fs' q2 = Some k"
    for q2 k
    using assms(3)[OF s]
  proof
    assume "info_at fs' q2 = info_at fs q2"
    with k have "info_at fs q2 = Some k" by simp
    from old[OF s this] show ?thesis .
  next
    assume "info_at fs' q2 = Some (IsDir ModePerm)"
    with k have "k = IsDir ModePerm" by simp
    moreover have "searchable ModePerm" by (simp add: ModePerm_def)
    ultimately show ?thesis by blast
  qed
  with assms(2) show ?thesis unfolding walk_ENOENT_iff by blast
qed

text \<open>
  A successful \<open>createFile\<close> after \<^verbatim>\<open>os.Stat\<close> has reported \<^verbatim>\<open>ENOENT\<close> has written the
  file.
\<close>

lemma createFile_created:
  assumes "createFile p content fs = (None, fs')" "walk fs p = Inl ENOENT"
  shows "node_at fs' p = Some (File content)"
proof -
  from assms(2) have ne: "IsNotExist (err_of (Stat fs p))" by (simp add: IsNotExist_def Stat_def)
  from assms(2) have "p \<noteq> []" by auto
  then obtain d x where p: "p = d @ [x]" using snoc_path by blast
  obtain e1 fs1 where c: "Create p fs = (e1, fs1)" by (cases "Create p fs")
  with assms(1) ne have e1: "e1 = None" by (cases e1) (auto simp: createFile_def)
  from c e1 have "at_entry create_op (d @ [x]) fs = (None, fs1)" by (simp add: Create_def p)
  then have made: "node_at fs1 p = Some (File [])"
  proof (cases rule: at_entry_elim)
    case (unreached er)
    then show ?thesis by simp
  next
    case (reached m es es' r)
    from reached(1,2) assms(2) have "map_of es x = None"
      by (simp add: p walk_snoc_Dir split: option.splits)
    with reached(3) have "r = Some (File [])" by (auto simp: create_op_def split: if_splits)
    with reached(4,5) show ?thesis by (simp add: p node_at_snoc_Dir)
  qed
  from createFile_effect[OF assms(1)] show ?thesis
  proof
    assume "fs' = fs"
    with assms(1) ne c e1 have w: "WriteString p content fs1 = (None, fs)"
      by (auto simp: createFile_def split: prod.splits option.splits)
    have "info_at fs p \<noteq> None"
    proof -
      from w have "at_entry (write_op content) (d @ [x]) fs1 = (None, fs)"
        by (simp add: WriteString_def p)
      then show ?thesis
      proof (cases rule: at_entry_elim)
        case (unreached er)
        then show ?thesis by simp
      next
        case (reached m es es' r)
        from reached(3) have "r \<noteq> None" by (auto simp: write_op_def split: option.splits node.splits)
        with reached(4,5) show ?thesis by (auto simp: p info_at_def node_at_snoc_Dir)
      qed
    qed
    with walk_ENOENT_node_at[OF assms(2)] show ?thesis by (simp add: info_at_def)
  next
    assume "None = None \<and> node_at fs p = None \<and> node_at fs' p = Some (File content)
          \<and> (\<forall>q. q \<noteq> p \<longrightarrow> info_at fs' q = info_at fs q)"
    then show ?thesis by simp
  qed
qed

text \<open>
  The directory loop leaves a path missing unless it lies on the way to one of its
  directories; \<open>createFile\<close> leaves it missing unless it writes at or above it.
\<close>

lemma createDirs_ENOENT:
  assumes "createDirs ds fs = (e, fs')" "walk fs q = Inl ENOENT" "\<forall>d\<in>set ds. \<not> prefix q d"
  shows "walk fs' q = Inl ENOENT"
proof (rule walk_ENOENT_pres[OF assms(2)])
  from createDirs_info[OF assms(1), of q] assms(3) walk_ENOENT_node_at[OF assms(2)]
  show "info_at fs' q = None" by (auto simp: info_at_def)
next
  fix q2 assume "strict_prefix q2 q"
  from createDirs_info[OF assms(1), of q2]
  show "info_at fs' q2 = info_at fs q2 \<or> info_at fs' q2 = Some (IsDir ModePerm)" by auto
qed

lemma createFile_ENOENT:
  assumes "createFile p c fs = (e, fs')" "walk fs q = Inl ENOENT" "\<not> prefix p q"
  shows "walk fs' q = Inl ENOENT"
proof (rule walk_ENOENT_pres[OF assms(2)])
  from createFile_info[OF assms(1), of q] assms(3) walk_ENOENT_node_at[OF assms(2)]
  show "info_at fs' q = None" by (auto simp: info_at_def)
next
  fix q2 assume "strict_prefix q2 q"
  with assms(3) have "q2 \<noteq> p" by (auto simp: strict_prefix_def)
  with createFile_info[OF assms(1), of q2]
  show "info_at fs' q2 = info_at fs q2 \<or> info_at fs' q2 = Some (IsDir ModePerm)" by auto
qed

text \<open>
  A successful file loop has written each of its files that \<^verbatim>\<open>os.Stat\<close> reported
  missing before the loop.
\<close>

lemma createFiles_created:
  "createFiles fls fs = (None, fs') \<Longrightarrow> walk fs p = Inl ENOENT \<Longrightarrow> (p, c) \<in> set fls \<Longrightarrow>
   (\<forall>p' c'. (p', c') \<in> set fls \<longrightarrow> prefix p' p \<longrightarrow> p' = p \<and> c' = c) \<Longrightarrow>
   node_at fs' p = Some (File c)"
proof (induction fls arbitrary: fs)
  case Nil
  then show ?case by simp
next
  case (Cons a fls)
  obtain p0 c0 where a: "a = (p0, c0)" by (cases a)
  from Cons.prems(1) have "thenDo (createFile p0 c0 fs) (createFiles fls) = (None, fs')"
    by (simp add: a)
  then obtain fs1 where c1: "createFile p0 c0 fs = (None, fs1)"
    and rest: "createFiles fls fs1 = (None, fs')"
    by (cases rule: thenDo_cases) auto
  show ?case
  proof (cases "p0 = p")
    case True
    with Cons.prems(4) a have c0: "c0 = c" by simp
    from createFile_created[OF c1] True c0 Cons.prems(2)
    have "info_at fs1 p = Some (IsFile c)" by (simp add: info_at_File)
    with createFiles_info[OF rest, of p] have "info_at fs' p = Some (IsFile c)" by auto
    then show ?thesis by (simp add: info_at_File)
  next
    case False
    with Cons.prems(3) a have mem: "(p, c) \<in> set fls" by auto
    from False Cons.prems(4) a have "\<not> prefix p0 p" by auto
    from createFile_ENOENT[OF c1 Cons.prems(2) this] have "walk fs1 p = Inl ENOENT" .
    from Cons.IH[OF rest this mem] Cons.prems(4) show ?thesis by simp
  qed
qed

text \<open>The six file paths: none lies on the way to a directory or to another file.\<close>

lemma files_unique:
  "map_of (files rootPath m) p = Some c \<Longrightarrow> (p, c') \<in> set (files rootPath m) \<Longrightarrow> c' = c"
  by (auto simp: files_def Join_files split: if_splits)

lemma files_not_above_dirs:
  "(p, c) \<in> set (files rootPath m) \<Longrightarrow> d \<in> set (dirs rootPath) \<Longrightarrow> \<not> prefix p d"
  by (auto simp: dirs_def files_def Join_dirs Join_files)

lemma files_paths:
  "(p, c) \<in> set (files rootPath m) \<Longrightarrow>
   p = rootPath @ [''cmd'', ''api'', ''main.go''] \<or> (\<exists>a b. p = rootPath @ [a, b] \<and> a \<noteq> ''cmd'')"
  by (auto simp: files_def Join_files)

lemma files_not_above_files:
  assumes "(p, c) \<in> set (files rootPath m)" "(p', c') \<in> set (files rootPath m)" "prefix p' p"
  shows "p' = p"
  using files_paths[OF assms(1)] files_paths[OF assms(2)] assms(3) by auto

text \<open>
  For \<open>setupMVC\<close>: an entry at one of the six file paths that differs after the
  directory and file steps is the file of that path with the content rendered for
  it; and a run that succeeds has written each of the six files that \<^verbatim>\<open>os.Stat\<close>
  reported missing after \<^verbatim>\<open>go mod init\<close>.
\<close>

lemma setupMVC_changed_file:
  assumes rd: "ReadString stdin = Inr line"
    and ini: "goModInit rootPath (TrimSpace line) fs = (None, fsi)"
    and run: "setupMVC goModInit stdin rootPath fs = (e, fs')"
    and p: "map_of (files rootPath (TrimSpace line)) p = Some c"
    and changed: "info_at fs' p \<noteq> info_at fsi p"
  shows "node_at fs' p = Some (File c)"
proof -
  from setupMVC_steps[of stdin line goModInit rootPath fs fsi, OF rd ini] run
  have steps: "thenDo (createDirs (dirs rootPath) fsi) (createFiles (files rootPath (TrimSpace line)))
      = (e, fs')" by simp
  from p have pin: "(p, c) \<in> set (files rootPath (TrimSpace line))" by (rule map_of_SomeD)
  have nodir: "\<not> prefix p d" if "d \<in> set (dirs rootPath)" for d
    using files_not_above_dirs[OF pin that] .
  have uniq: "c' = c" if "(p, c') \<in> set (files rootPath (TrimSpace line))" for c'
    using files_unique[OF p that] .
  from provision_info[OF steps, of p] changed nodir uniq show ?thesis
    by (auto simp: info_at_File)
qed

lemma setupMVC_missing_file:
  assumes rd: "ReadString stdin = Inr line"
    and ini: "goModInit rootPath (TrimSpace line) fs = (None, fsi)"
    and run: "setupMVC goModInit stdin rootPath fs = (None, fs')"
    and p: "map_of (files rootPath (TrimSpace line)) p = Some c"
    and missing: "walk fsi p = Inl ENOENT"
  shows "node_at fs' p = Some (File c)"
proof -
  from setupMVC_steps[of stdin line goModInit rootPath fs fsi, OF rd ini] run
  have "thenDo (createDirs (dirs rootPath) fsi) (createFiles (files rootPath (TrimSpace line)))
      = (None, fs')" by simp
  then obtain fsd where cd: "createDirs (dirs rootPath) fsi = (None, fsd)"
    and cf: "createFiles (files rootPath (TrimSpace line)) fsd = (None, fs')"
    by (cases rule: thenDo_cases) auto
  from p have pin: "(p, c) \<in> set (files rootPath (TrimSpace line))" by (rule map_of_SomeD)
  from files_not_above_dirs[OF pin] have "\<forall>d\<in>set (dirs rootPath). \<not> prefix p d" by blast
  from createDirs_ENOENT[OF cd missing this] have w: "walk fsd p = Inl ENOENT" .
  have "\<forall>p' c'. (p', c') \<in> set (files rootPath (TrimSpace line)) \<longrightarrow> prefix p' p
          \<longrightarrow> p' = p \<and> c' = c"
    using files_not_above_files[OF pin] files_unique[OF p] by blast
  from createFiles_created[OF cf w pin this] show ?thesis .
qed

section \<open>The module identifier in the rendered contents\<close>

text \<open>
  The rendered content of \<^verbatim>\<open>main.go\<close> holds the quoted import path of the identifier
  followed by \<^verbatim>\<open>/router\<close>, that of \<^verbatim>\<open>router.go\<close> the quoted import paths followed by
  \<^verbatim>\<open>/controller\<close> and \<^verbatim>\<open>/middleware\<close>; the contents of \<^verbatim>\<open>user.go\<close> and \<^verbatim>\<open>utility.go\<close>
  hold no quoted path that starts with a single-line identifier and a slash.
\<close>

lemma templates_contain_imports:
  \<open>sublist (''"'' @ m @ ''/router"'') (mainGoContent m)
   \<and> sublist (''"'' @ m @ ''/controller"'') (routerContent m)
   \<and> sublist (''"'' @ m @ ''/middleware"'') (routerContent m)
   \<and> (NL \<notin> set m \<longrightarrow>
        \<not> sublist (''"'' @ m @ ''/'') modelContent \<and> \<not> sublist (''"'' @ m @ ''/'') pkgContent)\<close>
proof -
  have 1: \<open>sublist (''"'' @ m @ ''/router"'') (mainGoContent m)\<close>
    unfolding mainGoContent_shape by (rule sublist_mid)
  have 2: \<open>sublist (''"'' @ m @ ''/controller"'') (routerContent m)\<close>
    unfolding routerContent_shape by (rule sublist_mid)
  have 3: \<open>sublist (''"'' @ m @ ''/middleware"'') (routerContent m)\<close>
    unfolding routerContent_shape by (rule sublist_mid2)
  have 4: \<open>\<not> sublist (''"'' @ m @ ''/'') modelContent \<and> \<not> sublist (''"'' @ m @ ''/'') pkgContent\<close>
    if "NL \<notin> set m"
    using sublist_quoted_ref[OF that, of modelContent] sublist_quoted_ref[OF that, of pkgContent]
      no_quoted_ref_model no_quoted_ref_pkg
    by auto
  from 1 2 3 4 show ?thesis by blast
qed


section \<open>The claims of the specification\<close>

subsection \<open>C1: provision followed by decommission\<close>

text \<open>
  As claim C1 states it, the round trip holds for every root path. It does not: \<open>deleteMVC\<close> removes the eight names whole, so whatever the user kept below
  one of them before provisioning is gone afterwards. In the example the project
  holds \<^verbatim>\<open>cmd/keep.txt\<close>; both runs succeed, and the file has disappeared.
\<close>

theorem round_trip_counterexample:
  "setupMVC stubInit exampleInput [''proj''] busyFS
     = (None, snd (setupMVC stubInit exampleInput [''proj''] busyFS))
   \<and> deleteMVC [''proj''] (snd (setupMVC stubInit exampleInput [''proj''] busyFS))
     = (None, snd (deleteMVC [''proj''] (snd (setupMVC stubInit exampleInput [''proj''] busyFS))))
   \<and> info_at busyFS [''proj'', ''cmd'', ''keep.txt''] = Some (IsFile ''mine'')
   \<and> info_at (snd (deleteMVC [''proj''] (snd (setupMVC stubInit exampleInput [''proj''] busyFS))))
        [''proj'', ''cmd'', ''keep.txt''] = None"
proof -
  let ?mid = "Dir ModePerm [(''proj'', Dir ModePerm
      [(''cmd'', Dir ModePerm [(''keep.txt'', File ''mine'')]),
       (''go.mod'', File (''module '' @ exampleModule @ [NL]))])]"
  have ini: "stubInit [''proj''] (TrimSpace exampleInput) busyFS = (None, ?mid)"
    by (simp add: TrimSpace_example stubInit_def busyFS_def fs_eval)
  let ?after = "Dir ModePerm
       [(''proj'', Dir ModePerm
          [(''cmd'', Dir ModePerm
              [(''keep.txt'', File ''mine''),
               (''api'', Dir ModePerm [(''main.go'', File (mainGoContent exampleModule))])]),
           (''go.mod'', File (''module '' @ exampleModule @ [NL])),
           (''controller'', Dir ModePerm [(''home_controller.go'', File controllerContent)]),
           (''models'', Dir ModePerm [(''user.go'', File modelContent)]),
           (''pkg'', Dir ModePerm [(''utility.go'', File pkgContent)]),
           (''config'', Dir ModePerm []),
           (''views'', Dir ModePerm []),
           (''router'', Dir ModePerm [(''router.go'', File (routerContent exampleModule))]),
           (''middleware'', Dir ModePerm [(''request_logger.go'', File middlewareContent)])])]"
  have run: "setupMVC stubInit exampleInput [''proj''] busyFS = (None, ?after)"
    by (subst setupMVC_steps[of exampleInput exampleInput stubInit "[''proj'']" busyFS ?mid,
          OF ReadString_example ini])
       (simp add: TrimSpace_example fs_eval)
  have del: "deleteMVC [''proj''] ?after = (None, Dir ModePerm [(''proj'', Dir ModePerm [])])"
    by (simp add: fs_eval)
  have was: "info_at busyFS [''proj'', ''cmd'', ''keep.txt''] = Some (IsFile ''mine'')"
    by (simp add: busyFS_def info_at_def)
  from run del was show ?thesis by (simp add: info_at_def)
qed

text \<open>
  Claim C1, amended. Let none of the eight names \<^verbatim>\<open>cmd\<close>, \<^verbatim>\<open>controller\<close>, \<^verbatim>\<open>models\<close>,
  \<^verbatim>\<open>pkg\<close>, \<^verbatim>\<open>config\<close>, \<^verbatim>\<open>views\<close>, \<^verbatim>\<open>router\<close>, \<^verbatim>\<open>middleware\<close> and no \<^verbatim>\<open>go.mod\<close> exist
  under the root path before provisioning, and let the module initialiser change
  nothing but \<^verbatim>\<open>go.mod\<close> in the root path. If \<open>setupMVC\<close> succeeds and \<open>deleteMVC\<close>
  then succeeds, every entry of the file system is as it was before \<open>setupMVC\<close>
  started: same kind, same mode, same content, for every path \<open>q\<close>. The one
  exception is the root path itself and the directories above it, which \<^verbatim>\<open>MkdirAll\<close>
  has made if they were missing and which stay. This holds for every module
  identifier, empty or not.
\<close>

theorem round_trip_fresh_root:
  assumes rd: "ReadString stdin = Inr line"
    and ini: "goModInit rootPath (TrimSpace line) fs = (None, fsi)"
    and ini_frame: "\<forall>p. \<not> prefix (rootPath @ [''go.mod'']) p \<longrightarrow> info_at fsi p = info_at fs p"
    and fresh: "\<forall>d\<in>set (''go.mod'' # deleteNames). node_at fs (rootPath @ [d]) = None"
    and prov: "setupMVC goModInit stdin rootPath fs = (None, fsp)"
    and del: "deleteMVC rootPath fsp = (None, fsd)"
  shows "info_at fsd q = info_at fs q
       \<or> (prefix q rootPath \<and> info_at fs q = None \<and> info_at fsd q = Some (IsDir ModePerm))"
proof -
  from deleteMVC_success[OF del]
  have gone: "\<forall>d\<in>set (''go.mod'' # deleteNames). node_at fsd (rootPath @ [d]) = None"
    by (auto dest: walk_ENOENT_node_at)
  show ?thesis
  proof (cases "\<exists>d\<in>set (''go.mod'' # deleteNames). prefix (rootPath @ [d]) q")
    case True
    then obtain d where d: "d \<in> set (''go.mod'' # deleteNames)" "prefix (rootPath @ [d]) q"
      by blast
    from d fresh have "info_at fs q = None" by (intro info_at_below_absent[of fs "rootPath @ [d]"]) auto
    moreover from d gone have "info_at fsd q = None"
      by (intro info_at_below_absent[of fsd "rootPath @ [d]"]) auto
    ultimately show ?thesis by simp
  next
    case False
    then have out: "\<forall>d\<in>set deleteNames. \<not> prefix (rootPath @ [d]) q"
      and nog: "\<not> prefix (rootPath @ [''go.mod'']) q"
      by auto
    from nog have "q \<noteq> rootPath @ [''go.mod'']" by auto
    from deleteMVC_frame[OF out this, of fsp] del have 1: "info_at fsd q = info_at fsp q" by simp
    from ini_frame nog have 2: "info_at fsi q = info_at fs q" by simp
    from setupMVC_steps[of stdin line goModInit rootPath fs fsi, OF rd ini] prov
    have "thenDo (createDirs (dirs rootPath) fsi) (createFiles (files rootPath (TrimSpace line)))
            = (None, fsp)" by simp
    from provision_info[OF this, of q] out files_under_names[of q _ rootPath "TrimSpace line"]
    have "info_at fsp q = info_at fsi q \<or>
       (info_at fsi q = None \<and> (\<exists>d\<in>set (dirs rootPath). prefix q d)
          \<and> info_at fsp q = Some (IsDir ModePerm))"
      by blast
    with out dirs_prefix[of _ rootPath q] 1 2 show ?thesis by metis
  qed
qed

theorem round_trip_fresh_root_witness:
  "ReadString exampleInput = Inr exampleInput
   \<and> stubInit [''proj''] (TrimSpace exampleInput) exampleFS = (None, initializedFS)
   \<and> node_at exampleFS [''proj'', ''go.mod''] = None
   \<and> node_at exampleFS [''proj'', ''cmd''] = None
   \<and> setupMVC stubInit exampleInput [''proj''] exampleFS = (None, provisionedFS)
   \<and> deleteMVC [''proj''] provisionedFS
        = (None, snd (deleteMVC [''proj''] provisionedFS))
   \<and> info_at provisionedFS [''proj'', ''cmd'', ''api'', ''main.go'']
        = Some (IsFile (mainGoContent exampleModule))
   \<and> info_at (snd (deleteMVC [''proj''] provisionedFS)) [''proj'', ''cmd'', ''api'', ''main.go'']
        = info_at exampleFS [''proj'', ''cmd'', ''api'', ''main.go'']"
proof -
  have 3: "\<forall>p. \<not> prefix ([''proj''] @ [''go.mod'']) p \<longrightarrow> info_at initializedFS p = info_at exampleFS p"
    using stubInit_frame[of "[''proj'']" _ "TrimSpace exampleInput" exampleFS] stubInit_example
    by simp
  have 4: "\<forall>d\<in>set (''go.mod'' # deleteNames). node_at exampleFS ([''proj''] @ [d]) = None"
    by (simp add: deleteNames_def exampleFS_def)
  have 5: "info_at provisionedFS [''proj'', ''cmd'', ''api'', ''main.go'']
        = Some (IsFile (mainGoContent exampleModule))"
    by (simp add: provisionedFS_def info_at_def)
  have 6: "deleteMVC [''proj''] provisionedFS = (None, snd (deleteMVC [''proj''] provisionedFS))"
    by (simp add: deleteMVC_example)
  have 7: "\<not> prefix [''proj'', ''cmd'', ''api'', ''main.go''] [''proj'']" by simp
  from round_trip_fresh_root[OF ReadString_example stubInit_example 3 4 setupMVC_example 6,
      of "[''proj'', ''cmd'', ''api'', ''main.go'']"] 7
  have 8: "info_at (snd (deleteMVC [''proj''] provisionedFS)) [''proj'', ''cmd'', ''api'', ''main.go'']
        = info_at exampleFS [''proj'', ''cmd'', ''api'', ''main.go'']"
    by blast
  have 9: "node_at exampleFS [''proj'', ''go.mod''] = None" "node_at exampleFS [''proj'', ''cmd''] = None"
    by (simp_all add: exampleFS_def)
  show ?thesis
    by (intro conjI) (rule ReadString_example stubInit_example 9 setupMVC_example 6 5 8)+
qed

subsection \<open>C2: decommission touches the nine names only\<close>

text \<open>
  Claim C2. For every root path and every file system, whether \<open>deleteMVC\<close> succeeds
  or fails: an entry \<open>q\<close> that is neither one of the eight names under the root path
  nor below one of them, and is not the file \<^verbatim>\<open>go.mod\<close> of the root path, has after
  \<open>deleteMVC\<close> the kind, mode and content it had before. Entries that do not exist
  stay absent.
\<close>

theorem deleteMVC_scope:
  assumes "\<forall>d\<in>set deleteNames. \<not> prefix (rootPath @ [d]) q"
    and "q \<noteq> rootPath @ [''go.mod'']"
  shows "info_at (snd (deleteMVC rootPath fs)) q = info_at fs q"
  using assms by (rule deleteMVC_frame)

theorem deleteMVC_scope_witness:
  "[''proj'', ''notes.txt''] \<noteq> [''proj''] @ [''go.mod'']
   \<and> info_at provisionedFS [''proj'', ''notes.txt''] = Some (IsFile ''hello'')
   \<and> info_at (snd (deleteMVC [''proj''] provisionedFS)) [''proj'', ''notes.txt''] = Some (IsFile ''hello'')"
proof -
  have 1: "\<forall>d\<in>set deleteNames. \<not> prefix ([''proj''] @ [d]) [''proj'', ''notes.txt'']"
    by (simp add: deleteNames_def)
  have 2: "[''proj'', ''notes.txt''] \<noteq> [''proj''] @ [''go.mod'']" by simp
  have 3: "info_at provisionedFS [''proj'', ''notes.txt''] = Some (IsFile ''hello'')"
    by (simp add: provisionedFS_def info_at_def)
  from deleteMVC_scope[OF 1 2, of provisionedFS] 2 3 show ?thesis by simp
qed

subsection \<open>C3: a failing module initialiser\<close>

text \<open>
  Claim C3. If the line with the module identifier has been read and the module
  initialiser fails (a non-zero exit status or a failure to start), \<open>setupMVC\<close>
  returns the module-initialisation error and the file system is exactly the one the
  initialiser left behind: \<open>setupMVC\<close> itself has created no directory and written no
  file.
\<close>

theorem setupMVC_module_init_failure:
  assumes "ReadString stdin = Inr line"
    and "goModInit rootPath (TrimSpace line) fs = (Some err, fsi)"
  shows "setupMVC goModInit stdin rootPath fs = (Some (ModuleInitFailed err), fsi)"
  using assms by (simp add: setupMVC_def)

theorem setupMVC_module_init_failure_witness:
  "ReadString exampleInput = Inr exampleInput
   \<and> failInit [''proj''] (TrimSpace exampleInput) exampleFS = (Some (ExitError 1), exampleFS)
   \<and> setupMVC failInit exampleInput [''proj''] exampleFS
       = (Some (ModuleInitFailed (ExitError 1)), exampleFS)"
proof -
  have 1: "ReadString exampleInput = Inr exampleInput" by (rule ReadString_example)
  have 2: "failInit [''proj''] (TrimSpace exampleInput) exampleFS = (Some (ExitError 1), exampleFS)"
    by (simp add: failInit_def)
  from setupMVC_module_init_failure[of exampleInput exampleInput failInit "[''proj'']" exampleFS
      "ExitError 1" exampleFS, OF 1 2] 1 2
  show ?thesis by simp
qed

subsection \<open>C4: a second provisioning run\<close>

text \<open>
  Claim C4. Take any file system, in particular the one a first run of \<open>setupMVC\<close>
  has left, and run \<open>setupMVC\<close> on it with a module initialiser that leaves the file at
  \<open>p\<close> alone. If \<open>p\<close> is one of the six file paths and a regular file with content \<open>c\<close>
  is there, then after the run the file at \<open>p\<close> still has the content \<open>c\<close>, whether the
  run succeeds or not.
\<close>

theorem setupMVC_keeps_existing_files:
  assumes "ReadString stdin = Inr line"
    and "goModInit rootPath (TrimSpace line) fsa = (ie, fsi)"
    and "(p, c') \<in> set (files rootPath (TrimSpace line))"
    and "node_at fsa p = Some (File c)"
    and "node_at fsi p = node_at fsa p"
  shows "node_at (snd (setupMVC goModInit stdin rootPath fsa)) p = Some (File c)"
proof -
  from assms(4,5) have "node_at fsi p = Some (File c)" by simp
  from setupMVC_preserves[of stdin line goModInit rootPath fsa ie fsi p "File c", OF assms(1,2) this]
  show ?thesis by (simp add: info_at_File)
qed

theorem setupMVC_keeps_existing_files_witness:
  "ReadString exampleInput = Inr exampleInput
   \<and> okInit [''proj''] (TrimSpace exampleInput) provisionedFS = (None, provisionedFS)
   \<and> ([''proj'', ''router'', ''router.go''], routerContent exampleModule)
        \<in> set (files [''proj''] (TrimSpace exampleInput))
   \<and> setupMVC stubInit exampleInput [''proj''] exampleFS = (None, provisionedFS)
   \<and> node_at provisionedFS [''proj'', ''router'', ''router.go''] = Some (File (routerContent exampleModule))
   \<and> node_at (snd (setupMVC okInit exampleInput [''proj''] provisionedFS)) [''proj'', ''router'', ''router.go'']
        = Some (File (routerContent exampleModule))"
proof -
  have 2: "okInit [''proj''] (TrimSpace exampleInput) provisionedFS = (None, provisionedFS)"
    by (simp add: okInit_def)
  have 3: "([''proj'', ''router'', ''router.go''], routerContent exampleModule)
        \<in> set (files [''proj''] (TrimSpace exampleInput))"
    by (simp add: files_def Join_def TrimSpace_example)
  have 4: "node_at provisionedFS [''proj'', ''router'', ''router.go''] = Some (File (routerContent exampleModule))"
    by (simp add: provisionedFS_def)
  from setupMVC_keeps_existing_files[of exampleInput exampleInput okInit "[''proj'']" provisionedFS
      None provisionedFS "[''proj'', ''router'', ''router.go'']" "routerContent exampleModule"
      "routerContent exampleModule", OF ReadString_example 2 3 4]
    ReadString_example 2 3 4 setupMVC_example
  show ?thesis by simp
qed

subsection \<open>C5: decommission twice\<close>

text \<open>
  Claim C5. If \<open>deleteMVC\<close> has returned without error, a second call on the file
  system it left returns without error again and changes nothing, and indeed
  none of the eight names and no \<^verbatim>\<open>go.mod\<close> exist under the root path then.
\<close>

theorem deleteMVC_idempotent:
  assumes "deleteMVC rootPath fs = (None, fs')"
  shows "deleteMVC rootPath fs' = (None, fs')
       \<and> (\<forall>d\<in>set deleteNames. node_at fs' (rootPath @ [d]) = None)
       \<and> node_at fs' (rootPath @ [''go.mod'']) = None"
proof -
  from deleteMVC_success[OF assms]
  have gone: "\<forall>d\<in>set deleteNames. walk fs' (rootPath @ [d]) = Inl ENOENT"
    and g: "walk fs' (rootPath @ [''go.mod'']) = Inl ENOENT"
    by simp_all
  from deleteMVC_absent[OF gone g] gone g show ?thesis
    by (auto dest: walk_ENOENT_node_at)
qed

theorem deleteMVC_idempotent_witness:
  "deleteMVC [''proj''] provisionedFS = (None, exampleFS)
   \<and> deleteMVC [''proj''] exampleFS = (None, exampleFS)
   \<and> node_at exampleFS ([''proj''] @ [''cmd'']) = None
   \<and> node_at exampleFS ([''proj''] @ [''middleware'']) = None
   \<and> node_at exampleFS ([''proj''] @ [''go.mod'']) = None"
  using deleteMVC_idempotent[OF deleteMVC_example] deleteMVC_example
  by (simp add: deleteNames_def)

subsection \<open>C6: the module identifier in the generated files\<close>

text \<open>
  Claim C6. Let \<open>setupMVC\<close> read a line and \<^verbatim>\<open>go mod init\<close> succeed; the module
  identifier is \<open>TrimSpace line\<close>, byte for byte. Take one of the six files of the
  program, at path \<open>p\<close>, that this run generates: the entry at \<open>p\<close> is not what it was
  after \<^verbatim>\<open>go mod init\<close>, or the run succeeds and \<^verbatim>\<open>os.Stat\<close> reported \<open>p\<close> missing
  after \<^verbatim>\<open>go mod init\<close>. Then after the run a file is at \<open>p\<close>, and its content \<open>c\<close> is
  the one rendered for \<open>p\<close>. In \<^verbatim>\<open>cmd/api/main.go\<close> it contains the quoted import path
  of the identifier followed by \<^verbatim>\<open>/router\<close>; in \<^verbatim>\<open>router/router.go\<close> it contains the
  quoted import paths of the identifier followed by \<^verbatim>\<open>/controller\<close> and by
  \<^verbatim>\<open>/middleware\<close>; in \<^verbatim>\<open>models/user.go\<close> and \<^verbatim>\<open>pkg/utility.go\<close> it contains no quoted
  path that starts with the identifier and a slash.
\<close>

theorem setupMVC_files_reference_module:
  assumes "ReadString stdin = Inr line"
    and "goModInit rootPath (TrimSpace line) fs = (None, fsi)"
    and "setupMVC goModInit stdin rootPath fs = (e, fs')"
    and "(p, c) \<in> set (files rootPath (TrimSpace line))"
    and "info_at fs' p \<noteq> info_at fsi p \<or> (e = None \<and> IsNotExist (err_of (Stat fsi p)))"
  shows \<open>node_at fs' p = Some (File c)
     \<and> (p = Join rootPath [''cmd/api'', ''main.go'']
          \<longrightarrow> sublist (''"'' @ TrimSpace line @ ''/router"'') c)
     \<and> (p = Join rootPath [''router'', ''router.go'']
          \<longrightarrow> sublist (''"'' @ TrimSpace line @ ''/controller"'') c
              \<and> sublist (''"'' @ TrimSpace line @ ''/middleware"'') c)
     \<and> (p = Join rootPath [''models'', ''user.go''] \<or> p = Join rootPath [''pkg'', ''utility.go'']
          \<longrightarrow> \<not> sublist (''"'' @ TrimSpace line @ ''/'') c)\<close>
proof -
  let ?m = "TrimSpace line"
  have look: "c = c'" if "map_of (files rootPath ?m) p = Some c'" for c'
    using files_unique[OF that assms(4)] .
  from assms(4) obtain c' where "map_of (files rootPath ?m) p = Some c'"
    by (cases "map_of (files rootPath ?m) p") (auto simp: map_of_eq_None_iff image_iff)
  with look have p: "map_of (files rootPath ?m) p = Some c" by simp
  have written: "node_at fs' p = Some (File c)"
    using assms(5)
  proof
    assume "info_at fs' p \<noteq> info_at fsi p"
    from setupMVC_changed_file[OF assms(1,2,3) p this] show ?thesis .
  next
    assume a: "e = None \<and> IsNotExist (err_of (Stat fsi p))"
    then have "walk fsi p = Inl ENOENT"
      by (cases "walk fsi p") (simp_all add: IsNotExist_def Stat_def)
    with setupMVC_missing_file[of stdin line goModInit rootPath fs fsi fs' p c] assms(1,2,3) p a
    show ?thesis by simp
  qed
  have nl: "NL \<notin> set ?m" using assms(1) by (rule TrimSpace_single_line)
  have main: \<open>sublist (''"'' @ ?m @ ''/router"'') c\<close>
    if "p = Join rootPath [''cmd/api'', ''main.go'']"
    using look[of "mainGoContent ?m"] that templates_contain_imports[of ?m]
    by (simp add: Join_files files_lookup)
  have router: \<open>sublist (''"'' @ ?m @ ''/controller"'') c \<and> sublist (''"'' @ ?m @ ''/middleware"'') c\<close>
    if "p = Join rootPath [''router'', ''router.go'']"
    using look[of "routerContent ?m"] that templates_contain_imports[of ?m]
    by (simp add: Join_files files_lookup)
  have model: \<open>\<not> sublist (''"'' @ ?m @ ''/'') c\<close>
    if "p = Join rootPath [''models'', ''user.go'']"
    using look[of modelContent] that templates_contain_imports[of ?m] nl
    by (simp add: Join_files files_lookup)
  have pkg: \<open>\<not> sublist (''"'' @ ?m @ ''/'') c\<close>
    if "p = Join rootPath [''pkg'', ''utility.go'']"
    using look[of pkgContent] that templates_contain_imports[of ?m] nl
    by (simp add: Join_files files_lookup)
  from written main router model pkg show ?thesis by blast
qed

theorem setupMVC_files_reference_module_witness:
  \<open>ReadString exampleInput = Inr exampleInput
   \<and> stubInit [''proj''] (TrimSpace exampleInput) exampleFS = (None, initializedFS)
   \<and> setupMVC stubInit exampleInput [''proj''] exampleFS = (None, provisionedFS)
   \<and> (Join [''proj''] [''cmd/api'', ''main.go''], mainGoContent (TrimSpace exampleInput))
        \<in> set (files [''proj''] (TrimSpace exampleInput))
   \<and> IsNotExist (err_of (Stat initializedFS (Join [''proj''] [''cmd/api'', ''main.go''])))
   \<and> node_at provisionedFS (Join [''proj''] [''cmd/api'', ''main.go''])
        = Some (File (mainGoContent (TrimSpace exampleInput)))
   \<and> sublist (''"'' @ TrimSpace exampleInput @ ''/router"'') (mainGoContent (TrimSpace exampleInput))\<close>
proof -
  let ?p = "Join [''proj''] [''cmd/api'', ''main.go'']"
  let ?c = "mainGoContent (TrimSpace exampleInput)"
  have 1: "(?p, ?c) \<in> set (files [''proj''] (TrimSpace exampleInput))"
    by (simp add: files_def)
  have 2: "IsNotExist (err_of (Stat initializedFS ?p))"
    by (simp add: initializedFS_def fs_eval)
  then have 3: "info_at provisionedFS ?p \<noteq> info_at initializedFS ?p
       \<or> (None = None \<and> IsNotExist (err_of (Stat initializedFS ?p)))" by simp
  from setupMVC_files_reference_module[OF ReadString_example stubInit_example setupMVC_example 1 3]
    ReadString_example stubInit_example setupMVC_example 1 2
  show ?thesis by blast
qed

subsection \<open>C7: failures while the directories are made\<close>

text \<open>
  Claim C7 says that every permission or input/output failure met while one of the
  eight directories is made ends the run with an error. An error that \<^verbatim>\<open>os.MkdirAll\<close>
  returns does end the run (lemmas \<open>createDir_error\<close>, \<open>setupMVC_createDirs_failure\<close>
  and \<open>setupMVC_readonly_example\<close>), and the directories made before it stay
  (lemma \<open>createDirs_info\<close>). But \<open>createDir\<close> calls \<^verbatim>\<open>os.MkdirAll\<close> only when
  \<^verbatim>\<open>os.IsNotExist\<close> holds of the error of \<^verbatim>\<open>os.Stat\<close>, and returns \<^verbatim>\<open>nil\<close> on every
  other error. In the example the project holds a directory \<^verbatim>\<open>cmd\<close> of mode \<^verbatim>\<open>000\<close>:
  \<^verbatim>\<open>os.Stat\<close> of \<^verbatim>\<open>cmd/api\<close> fails with \<^verbatim>\<open>EACCES\<close>, \<open>createDir\<close> reports success, and so
  does the whole of \<open>setupMVC\<close>, having made neither \<^verbatim>\<open>cmd/api\<close> nor \<^verbatim>\<open>main.go\<close> in it,
  while the later files are written.
\<close>

theorem createDir_swallows_stat_error:
  "Stat lockedFS [''proj'', ''cmd'', ''api''] = Inl EACCES
   \<and> createDir [''proj'', ''cmd'', ''api''] lockedFS = (None, lockedFS)
   \<and> fst (setupMVC stubInit exampleInput [''proj''] lockedFS) = None
   \<and> node_at (snd (setupMVC stubInit exampleInput [''proj''] lockedFS)) [''proj'', ''cmd'', ''api''] = None
   \<and> node_at (snd (setupMVC stubInit exampleInput [''proj''] lockedFS))
        [''proj'', ''cmd'', ''api'', ''main.go''] = None
   \<and> node_at (snd (setupMVC stubInit exampleInput [''proj''] lockedFS))
        [''proj'', ''router'', ''router.go''] = Some (File (routerContent exampleModule))"
proof -
  let ?mid = "Dir ModePerm [(''proj'', Dir ModePerm
      [(''cmd'', Dir (Mode False False False) []),
       (''go.mod'', File (''module '' @ exampleModule @ [NL]))])]"
  have ini: "stubInit [''proj''] (TrimSpace exampleInput) lockedFS = (None, ?mid)"
    by (simp add: TrimSpace_example stubInit_def lockedFS_def fs_eval)
  let ?after = "Dir ModePerm
       [(''proj'', Dir ModePerm
          [(''cmd'', Dir (Mode False False False) []),
           (''go.mod'', File (''module '' @ exampleModule @ [NL])),
           (''controller'', Dir ModePerm [(''home_controller.go'', File controllerContent)]),
           (''models'', Dir ModePerm [(''user.go'', File modelContent)]),
           (''pkg'', Dir ModePerm [(''utility.go'', File pkgContent)]),
           (''config'', Dir ModePerm []),
           (''views'', Dir ModePerm []),
           (''router'', Dir ModePerm [(''router.go'', File (routerContent exampleModule))]),
           (''middleware'', Dir ModePerm [(''request_logger.go'', File middlewareContent)])])]"
  have run: "setupMVC stubInit exampleInput [''proj''] lockedFS = (None, ?after)"
    by (subst setupMVC_steps[of exampleInput exampleInput stubInit "[''proj'']" lockedFS ?mid,
          OF ReadString_example ini])
       (simp add: TrimSpace_example fs_eval)
  have st: "Stat lockedFS [''proj'', ''cmd'', ''api''] = Inl EACCES"
    by (simp add: lockedFS_def fs_eval)
  have cd: "createDir [''proj'', ''cmd'', ''api''] lockedFS = (None, lockedFS)"
    by (simp add: lockedFS_def fs_eval)
  from run st cd show ?thesis by simp
qed

subsection \<open>C8: which templates depend on the module identifier\<close>



subsection \<open>C9: provisioning destroys nothing\<close>

text \<open>
  Claim C9. Let a node of any kind exist at the path \<open>q\<close>. Then \<open>createDir\<close> at \<open>q\<close>
  and \<open>createFile\<close> at \<open>q\<close> report success and leave the file system as it is; a
  \<open>createDir\<close> or \<open>createFile\<close> at any path leaves the node at \<open>q\<close> with its kind, mode
  and content; and so does the whole run of \<open>setupMVC\<close> from the file system the module
  initialiser has left.
\<close>

theorem provision_never_destroys:
  assumes "node_at fs q = Some n"
  shows "createDir q fs = (None, fs) \<and> createFile q content fs = (None, fs)
       \<and> info_at (snd (createDir path fs)) q = Some (info_of n)
       \<and> info_at (snd (createFile path content fs)) q = Some (info_of n)
       \<and> (ReadString stdin = Inr line \<and> goModInit rootPath (TrimSpace line) fsb = (ie, fs)
            \<longrightarrow> info_at (snd (setupMVC goModInit stdin rootPath fsb)) q = Some (info_of n))"
proof -
  have i: "info_at fs q = Some (info_of n)" using assms by (simp add: info_at_def)
  have 1: "info_at (snd (createDir path fs)) q = Some (info_of n)"
    using createDir_info[of path fs "fst (createDir path fs)" "snd (createDir path fs)" q] i
    by auto
  have 2: "info_at (snd (createFile path content fs)) q = Some (info_of n)"
    using createFile_info[of path content fs "fst (createFile path content fs)"
        "snd (createFile path content fs)" q] i
    by auto
  from 1 2 createDir_exists[OF assms] createFile_exists[OF assms] setupMVC_preserves[OF _ _ assms]
  show ?thesis by blast
qed

theorem provision_never_destroys_witness:
  "node_at initializedFS [''proj'', ''notes.txt''] = Some (File ''hello'')
   \<and> createDir [''proj'', ''notes.txt''] initializedFS = (None, initializedFS)
   \<and> createFile [''proj'', ''notes.txt''] ''new'' initializedFS = (None, initializedFS)
   \<and> info_at (snd (createDir [''proj'', ''cmd'', ''api''] initializedFS)) [''proj'', ''notes.txt'']
        = Some (IsFile ''hello'')
   \<and> info_at (snd (createFile [''proj'', ''cmd'', ''api''] ''new'' initializedFS)) [''proj'', ''notes.txt'']
        = Some (IsFile ''hello'')
   \<and> info_at (snd (setupMVC stubInit exampleInput [''proj''] exampleFS)) [''proj'', ''notes.txt'']
        = Some (IsFile ''hello'')"
proof -
  have 1: "node_at initializedFS [''proj'', ''notes.txt''] = Some (File ''hello'')"
    by (simp add: initializedFS_def)
  from provision_never_destroys[OF 1, of "''new''" "[''proj'', ''cmd'', ''api'']" exampleInput
      exampleInput stubInit "[''proj'']" exampleFS None] 1 ReadString_example stubInit_example
  show ?thesis by simp
qed

subsection \<open>C10: decommission of a root path that does not exist\<close>





end
